theory Spec2Isabelle
  imports Main
begin

section \<open>JavaScript values, strings and exceptions\<close>

text \<open>
  The dashboard script (\<^verbatim>\<open>script.js\<close>) is embedded function by function. A JavaScript
  value is a \<open>jsval\<close>; an object keeps its own properties in insertion order. Strings are
  \<open>string\<close>, so a character is one of the 256 code units below U+0100. \<open>JNum n\<close> is the
  Number whose mathematical value is the integer \<open>n\<close> (fractions are not needed by the
  script); \<open>JNaN\<close> is the Number \<^verbatim>\<open>NaN\<close>.
\<close>

datatype jsval =
    JUndefined
  | JNull
  | JBool bool
  | JNum int
  | JNaN
  | JStr string
  | JArr "jsval list"
  | JObj "(string \<times> jsval) list"

datatype exn = TypeError string | SyntaxError string | Error string

fun message :: "exn \<Rightarrow> string" where
  "message (TypeError m) = m"
| "message (SyntaxError m) = m"
| "message (Error m) = m"

text \<open>ToBoolean, as used by \<^verbatim>\<open>!x\<close>, \<^verbatim>\<open>x || y\<close> and \<^verbatim>\<open>if (x)\<close>.\<close>

fun truthy :: "jsval \<Rightarrow> bool" where
  "truthy JUndefined = False"
| "truthy JNull = False"
| "truthy (JBool b) = b"
| "truthy (JNum n) = (n \<noteq> 0)"
| "truthy JNaN = False"
| "truthy (JStr s) = (s \<noteq> [])"
| "truthy (JArr xs) = True"
| "truthy (JObj kvs) = True"

text \<open>\<^verbatim>\<open>a || b\<close> on values.\<close>

definition js_or :: "jsval \<Rightarrow> jsval \<Rightarrow> jsval" where
  "js_or a b = (if truthy a then a else b)"

definition quoted :: "string \<Rightarrow> string" where
  "quoted k = CHR 0x27 # k @ [CHR 0x27]"

text \<open>
  Reading a property \<^verbatim>\<open>v.k\<close>, for the property names the script reads (none of them is
  inherited from a prototype): \<^verbatim>\<open>null\<close> and \<^verbatim>\<open>undefined\<close> throw, an object gives its
  own property or \<^verbatim>\<open>undefined\<close>, every other value gives \<^verbatim>\<open>undefined\<close>. The wording
  of the TypeError is the engine's.
\<close>

fun get_prop :: "jsval \<Rightarrow> string \<Rightarrow> exn + jsval" where
  "get_prop JUndefined k =
     Inl (TypeError (''Cannot read properties of undefined (reading '' @ quoted k @ '')''))"
| "get_prop JNull k =
     Inl (TypeError (''Cannot read properties of null (reading '' @ quoted k @ '')''))"
| "get_prop (JObj kvs) k = Inr (case map_of kvs k of None \<Rightarrow> JUndefined | Some v \<Rightarrow> v)"
| "get_prop v k = Inr JUndefined"

text \<open>\<^verbatim>\<open>k in v\<close> for an object: whether the key is one of its own properties.\<close>

fun has_key :: "jsval \<Rightarrow> string \<Rightarrow> bool" where
  "has_key (JObj kvs) k = (k \<in> fst ` set kvs)"
| "has_key v k = False"

text \<open>
  What \<^verbatim>\<open>JSON.stringify\<close> keeps of a value, up to the layout of the text: a property
  whose value is \<^verbatim>\<open>undefined\<close> is dropped, \<^verbatim>\<open>NaN\<close> becomes \<^verbatim>\<open>null\<close>, and
  \<^verbatim>\<open>undefined\<close> inside an array becomes \<^verbatim>\<open>null\<close>.
\<close>

fun to_json :: "jsval \<Rightarrow> jsval" where
  "to_json JNaN = JNull"
| "to_json (JArr xs) = JArr (map (\<lambda>v. if v = JUndefined then JNull else to_json v) xs)"
| "to_json (JObj kvs) =
     JObj (map (\<lambda>(k, v). (k, to_json v)) (filter (\<lambda>(k, v). v \<noteq> JUndefined) kvs))"
| "to_json v = v"

subsection \<open>Strings\<close>

text \<open>
  The white space and line terminators that \<^verbatim>\<open>trim\<close>, \<^verbatim>\<open>trimEnd\<close> and \<^verbatim>\<open>\s\<close>
  recognise, among the code units a \<open>char\<close> can hold: TAB, LF, VT, FF, CR, SP, NBSP.
\<close>

definition is_space :: "char \<Rightarrow> bool" where
  "is_space c = (c \<in> set [CHR 0x09, CHR 0x0A, CHR 0x0B, CHR 0x0C, CHR 0x0D, CHR 0x20, CHR 0xA0])"

definition trimEnd :: "string \<Rightarrow> string" where
  "trimEnd s = rev (dropWhile is_space (rev s))"

definition trim :: "string \<Rightarrow> string" where
  "trim s = trimEnd (dropWhile is_space s)"

definition is_digit :: "char \<Rightarrow> bool" where
  "is_digit c = (c \<in> set ''0123456789'')"

definition digit_val :: "char \<Rightarrow> nat" where
  "digit_val c = of_char c - 48"

definition digit_char :: "nat \<Rightarrow> char" where
  "digit_char d = char_of (48 + d)"

function show_nat :: "nat \<Rightarrow> string" where
  "show_nat n = (if n < 10 then [digit_char n] else show_nat (n div 10) @ [digit_char (n mod 10)])"
  by pat_completeness auto
termination
  by (relation "measure id") auto

declare show_nat.simps [simp del]

definition show_int :: "int \<Rightarrow> string" where
  "show_int i = (if i < 0 then CHR ''-'' # show_nat (nat (- i)) else show_nat (nat i))"

text \<open>
  \<^verbatim>\<open>parseInt(s, 10)\<close>: leading white space is skipped, one sign is read, then the longest
  run of decimal digits; with no digit there the result is \<^verbatim>\<open>NaN\<close>, and whatever
  follows the digits is ignored. \<open>JNum n\<close> stands for the Number the digits denote: the
  double nearest to \<open>n\<close>, which is \<open>n\<close> itself up to \<open>2 ^ 53\<close>.
\<close>

definition parseInt10 :: "string \<Rightarrow> jsval" where
  "parseInt10 s =
     (let t = dropWhile is_space s;
          neg = (t \<noteq> [] \<and> hd t = CHR ''-'');
          u = (if t \<noteq> [] \<and> (hd t = CHR ''-'' \<or> hd t = CHR ''+'') then tl t else t);
          ds = takeWhile is_digit u
      in if ds = [] then JNaN
         else JNum ((if neg then - 1 else 1) * int (foldl (\<lambda>a c. 10 * a + digit_val c) 0 ds)))"

text \<open>\<^verbatim>\<open>s.replace(pat, rep)\<close> with a string pattern: the first occurrence only.\<close>

fun replace_first :: "string \<Rightarrow> string \<Rightarrow> string \<Rightarrow> string" where
  "replace_first pat rep [] = (if pat = [] then rep else [])"
| "replace_first pat rep (c # cs) =
     (if take (length pat) (c # cs) = pat then rep @ drop (length pat) (c # cs)
      else c # replace_first pat rep cs)"

text \<open>\<^verbatim>\<open>xs.join(sep)\<close> on strings.\<close>

fun join :: "string \<Rightarrow> string list \<Rightarrow> string" where
  "join sep [] = []"
| "join sep [x] = x"
| "join sep (x # y # ys) = x @ sep @ join sep (y # ys)"

text \<open>
  Three characters of the script's literals lie beyond the code units of \<open>char\<close>: the
  bullet U+2022, the ellipsis U+2026 and the dash U+2014. They stand here as ASCII.
\<close>

definition bullet :: string where "bullet = ''*''"
definition ellipsis :: string where "ellipsis = ''...''"
definition em_dash :: string where "em_dash = ''-''"

subsection \<open>The host\<close>

text \<open>
  Functions of the JavaScript host that the script calls and that are not part of it:
  \<^verbatim>\<open>JSON.parse\<close> (\<open>None\<close> when it throws a SyntaxError), \<^verbatim>\<open>JSON.stringify(v, null, 2)\<close>,
  \<^verbatim>\<open>String.prototype.toUpperCase\<close> and \<^verbatim>\<open>toLocaleString\<close>.
\<close>

record host =
  JSON_parse :: "string \<Rightarrow> jsval option"
  JSON_stringify :: "jsval \<Rightarrow> string"
  toUpperCase :: "string \<Rightarrow> string"
  toLocaleString :: "jsval \<Rightarrow> string"

section \<open>The page\<close>

text \<open>
  The state the script works on. The input fields and the controls of the table \<^verbatim>\<open>dom\<close>
  are references taken when the script loads; each is a field here (\<^verbatim>\<open>dom.cid.value\<close> is
  \<open>cid\<close>). Elements that the script looks up by id at the time of use (\<^verbatim>\<open>$(id)\<close>, which is
  \<^verbatim>\<open>document.getElementById\<close>: the four display regions and the four loading steps) are
  kept by id, and \<open>missing\<close> holds the ids the document has no element for, where
  \<^verbatim>\<open>$(id)\<close> is \<^verbatim>\<open>null\<close>.

  The two variables of the script are \<open>lastReport\<close> and \<open>loadingTimer\<close>. Each call of
  \<^verbatim>\<open>startLoadingAnimation\<close> makes a fresh variable \<^verbatim>\<open>current\<close> that its callbacks share;
  \<open>currents\<close> holds one per call. \<open>timers\<close> is the host's timer table in the order of
  registration, \<open>now\<close> the clock in milliseconds. The remaining fields record what the script
  sends out: alerts, requests, console errors, clipboard writes and downloads.
\<close>

datatype callback = Interval_body nat | Advance nat

record timer =
  tid :: nat
  due :: nat
  period :: "nat option"
  callback :: callback

datatype body_content = No_content | Child_html string | Text_content string

record page =
  projectName :: string
  projectDesc :: string
  compoundName :: string
  cid :: string
  pdbId :: string
  dockingJson :: string
  swissdockJson :: string
  pymolJson :: string
  webhookUrl :: string
  btnRun_disabled :: bool
  statusDot_className :: string
  statusLabel_textContent :: string
  outputActions_display :: string
  resultMeta_items :: "(string \<times> string) list"
  resultBody :: body_content
  errorMsg_textContent :: string
  missing :: "string set"
  display :: "string \<Rightarrow> string"
  className :: "string \<Rightarrow> string"
  textContent :: "string \<Rightarrow> string"
  lastReport :: jsval
  loadingTimer :: "nat option"
  currents :: "nat list"
  timers :: "timer list"
  next_tid :: nat
  now :: nat
  alerts :: "string list"
  fetches :: "(string \<times> jsval) list"
  console_errors :: "exn list"
  clipboard :: "jsval list"
  downloads :: "(string \<times> jsval) list"

section \<open>Validation\<close>

definition name_required :: string where
  "name_required = ''Analysis Name is required.''"

definition compound_required :: string where
  "compound_required = ''Provide a Compound Name or PubChem CID.''"

definition pdb_length :: string where
  "pdb_length = ''PDB Accession must be exactly 4 characters (e.g. 1EQG).''"

definition webhook_required :: string where
  "webhook_required = ''n8n Webhook URL is required.''"

text \<open>The body of the \<^verbatim>\<open>forEach\<close> over the three JSON fields, for one key and its value.\<close>

definition json_field_errors :: "host \<Rightarrow> string \<Rightarrow> string \<Rightarrow> string list" where
  "json_field_errors H key v =
     (let val = trim v
      in if val \<noteq> [] then
           (case JSON_parse H val of
              Some _ \<Rightarrow> []
            | None \<Rightarrow> [replace_first ''Json'' '''' key @ '' data is not valid JSON.''])
         else [])"

definition validate :: "host \<Rightarrow> page \<Rightarrow> string list" where
  "validate H d =
     (let compoundName' = trim (compoundName d);
          cid' = trim (cid d);
          pdbId' = trim (pdbId d);
          webhookUrl' = trim (webhookUrl d);
          projectName' = trim (projectName d)
      in (if projectName' = [] then [name_required] else [])
       @ (if compoundName' = [] \<and> cid' = [] then [compound_required] else [])
       @ (if pdbId' = [] \<or> length pdbId' \<noteq> 4 then [pdb_length] else [])
       @ (if webhookUrl' = [] then [webhook_required] else [])
       @ concat (map (\<lambda>(key, v). json_field_errors H key v)
           [(''dockingJson'', dockingJson d),
            (''swissdockJson'', swissdockJson d),
            (''pymolJson'', pymolJson d)]))"

section \<open>Building the payload\<close>

text \<open>
  \<^verbatim>\<open>if (raw) payload.key = JSON.parse(raw)\<close>: the property is added when the trimmed text
  is not empty; \<^verbatim>\<open>JSON.parse\<close> may throw a SyntaxError, whose message is the engine's.
\<close>

definition add_parsed :: "host \<Rightarrow> string \<Rightarrow> string \<Rightarrow> (string \<times> jsval) list
    \<Rightarrow> exn + (string \<times> jsval) list" where
  "add_parsed H key raw props =
     (if raw \<noteq> [] then
        (case JSON_parse H raw of
           Some v \<Rightarrow> Inr (props @ [(key, v)])
         | None \<Rightarrow> Inl (SyntaxError ''Unexpected token''))
      else Inr props)"

definition buildPayload :: "host \<Rightarrow> page \<Rightarrow> exn + jsval" where
  "buildPayload H d =
     (let desc = trim (projectDesc d);
          payload0 =
            [(''analysis_name'', JStr (trim (projectName d))),
             (''analysis_description'', if desc \<noteq> [] then JStr desc else JUndefined),
             (''pdb_id'', JStr (toUpperCase H (trim (pdbId d))))];
          compoundName' = trim (compoundName d);
          cid' = trim (cid d);
          payload1 = payload0 @ (if compoundName' \<noteq> [] then [(''compound_name'', JStr compoundName')] else []);
          payload2 = payload1 @ (if cid' \<noteq> [] then [(''cid'', parseInt10 cid')] else []);
          dockRaw = trim (dockingJson d);
          swissRaw = trim (swissdockJson d);
          pymolRaw = trim (pymolJson d)
      in case add_parsed H ''docking_results'' dockRaw payload2 of
           Inl e \<Rightarrow> Inl e
         | Inr payload3 \<Rightarrow>
             (case add_parsed H ''swissdock_results'' swissRaw payload3 of
                Inl e \<Rightarrow> Inl e
              | Inr payload4 \<Rightarrow>
                  (case add_parsed H ''pymol_data'' pymolRaw payload4 of
                     Inl e \<Rightarrow> Inl e
                   | Inr payload5 \<Rightarrow> Inr (JObj payload5))))"

section \<open>The markdown renderer\<close>

text \<open>
  \<^verbatim>\<open>renderMarkdown\<close> rewrites the text by a chain of \<^verbatim>\<open>replace\<close> calls with global regular
  expressions. Each call scans from left to right: where the expression matches, the match
  is replaced and the scan goes on behind it; where it does not, one character is passed
  through. Each pass below is that scan for one expression.
\<close>

text \<open>\<^verbatim>\<open>.replace(/c/g, rep)\<close> for a single character \<open>c\<close>.\<close>

definition replace_char :: "char \<Rightarrow> string \<Rightarrow> string \<Rightarrow> string" where
  "replace_char c rep s = concat (map (\<lambda>x. if x = c then rep else [x]) s)"

definition escHtml :: "string \<Rightarrow> string" where
  "escHtml str =
     replace_char CHR ''>'' ''&gt;'' (replace_char CHR ''<'' ''&lt;'' (replace_char CHR ''&'' ''&amp;'' str))"

text \<open>The class \<^verbatim>\<open>\w\<close>, and the line terminators that \<^verbatim>\<open>.\<close>, \<^verbatim>\<open>^\<close> and \<^verbatim>\<open>$\<close> respect.\<close>

definition is_word :: "char \<Rightarrow> bool" where
  "is_word c = (c \<in> set ''abcdefghijklmnopqrstuvwxyzABCDEFGHIJKLMNOPQRSTUVWXYZ0123456789_'')"

definition is_line_end :: "char \<Rightarrow> bool" where
  "is_line_end c = (c = CHR 0x0A \<or> c = CHR 0x0D)"

text \<open>The first occurrence of \<open>pat\<close> in a text: what stands before it and what after.\<close>

fun find_sub :: "string \<Rightarrow> string \<Rightarrow> (string \<times> string) option" where
  "find_sub pat [] = (if pat = [] then Some ([], []) else None)"
| "find_sub pat (c # cs) =
     (if take (length pat) (c # cs) = pat then Some ([], drop (length pat) (c # cs))
      else map_option (\<lambda>(b, a). (c # b, a)) (find_sub pat cs))"

lemma find_sub_length: "find_sub pat s = Some (b, a) \<Longrightarrow> length a \<le> length s"
  by (induction s arbitrary: b) (auto split: if_splits)

subsection \<open>Fenced code blocks\<close>

text \<open>
  \<^verbatim>\<open>/```[\w]*\n?([\s\S]*?)```/g\<close>, replaced by the function that wraps the trimmed group.
  Behind an opening fence the greedy \<^verbatim>\<open>[\w]*\<close> and \<^verbatim>\<open>\n?\<close> take all they can; giving
  some of it back cannot help, since no fence starts inside word characters or the line
  feed. The lazy group then ends at the first closing fence.
\<close>

definition fence :: string where "fence = ''```''"

definition fenced_body :: "string \<Rightarrow> (string \<times> string) option" where
  "fenced_body r =
     (let r1 = dropWhile is_word r;
          r2 = (if r1 \<noteq> [] \<and> hd r1 = CHR 0x0A then tl r1 else r1)
      in find_sub fence r2)"

lemma fenced_body_length: "fenced_body r = Some (code, rest) \<Longrightarrow> length rest \<le> length r"
proof -
  assume a: "fenced_body r = Some (code, rest)"
  define r1 where "r1 = dropWhile is_word r"
  define r2 where "r2 = (if r1 \<noteq> [] \<and> hd r1 = CHR 0x0A then tl r1 else r1)"
  have "find_sub fence r2 = Some (code, rest)"
    using a unfolding fenced_body_def r1_def r2_def Let_def .
  then have "length rest \<le> length r2" by (rule find_sub_length)
  also have "length r2 \<le> length r1" by (simp add: r2_def)
  also have "length r1 \<le> length r" by (simp add: r1_def length_dropWhile_le)
  finally show ?thesis .
qed

function code_blocks :: "string \<Rightarrow> string" where
  "code_blocks [] = []"
| "code_blocks (c # cs) =
     (if take 3 (c # cs) = fence then
        (case fenced_body (drop 3 (c # cs)) of
           Some (code, rest) \<Rightarrow> ''<pre><code>'' @ trimEnd code @ ''</code></pre>'' @ code_blocks rest
         | None \<Rightarrow> c # code_blocks cs)
      else c # code_blocks cs)"
  by pat_completeness auto
termination
  by (relation "measure length") (auto dest!: fenced_body_length)

subsection \<open>Inline code\<close>

text \<open>
  \<^verbatim>\<open>/`([^`]+)`/g\<close>, replaced by \<^verbatim>\<open><code>$1</code>\<close>: a backtick, the longest run of other
  characters, which must not be empty, and a backtick.
\<close>

definition backtick :: char where "backtick = CHR 0x60"

definition inline_body :: "string \<Rightarrow> (string \<times> string) option" where
  "inline_body cs =
     (let body = takeWhile (\<lambda>x. x \<noteq> backtick) cs;
          rest = dropWhile (\<lambda>x. x \<noteq> backtick) cs
      in if body \<noteq> [] \<and> rest \<noteq> [] then Some (body, tl rest) else None)"

lemma inline_body_length: "inline_body cs = Some (body, rest) \<Longrightarrow> length rest \<le> length cs"
proof -
  assume a: "inline_body cs = Some (body, rest)"
  then have "rest = tl (dropWhile (\<lambda>x. x \<noteq> backtick) cs)"
    by (auto simp: inline_body_def Let_def split: if_splits)
  moreover have "length (dropWhile (\<lambda>x. x \<noteq> backtick) cs) \<le> length cs"
    by (rule length_dropWhile_le)
  ultimately show ?thesis by simp
qed

function inline_code :: "string \<Rightarrow> string" where
  "inline_code [] = []"
| "inline_code (c # cs) =
     (if c = backtick then
        (case inline_body cs of
           Some (body, rest) \<Rightarrow> ''<code>'' @ body @ ''</code>'' @ inline_code rest
         | None \<Rightarrow> c # inline_code cs)
      else c # inline_code cs)"
  by pat_completeness auto
termination
  by (relation "measure length") (auto dest!: inline_body_length)

subsection \<open>Headers and rules: whole lines\<close>

text \<open>
  With the flag \<^verbatim>\<open>m\<close>, \<^verbatim>\<open>^\<close> and \<^verbatim>\<open>$\<close> match at the ends of each line, and \<^verbatim>\<open>.+\<close> runs
  to the end of the line; so \<^verbatim>\<open>/^### (.+)$/gm\<close> and \<^verbatim>\<open>/^---$/gm\<close> rewrite whole lines.
  \<open>map_lines\<close> applies a function to every line and keeps the terminators.
\<close>

lemma dropWhile_Cons_length: "t # r = dropWhile P s \<Longrightarrow> length r < length s"
proof -
  assume "t # r = dropWhile P s"
  then have "length (t # r) \<le> length s"
    using length_dropWhile_le [of P s] by (simp del: length_dropWhile_le)
  then show ?thesis by simp
qed

function map_lines :: "(string \<Rightarrow> string) \<Rightarrow> string \<Rightarrow> string" where
  "map_lines f s =
     (let l = takeWhile (\<lambda>x. \<not> is_line_end x) s;
          r = dropWhile (\<lambda>x. \<not> is_line_end x) s
      in f l @ (case r of [] \<Rightarrow> [] | t # r' \<Rightarrow> t # map_lines f r'))"
  by pat_completeness auto
termination
  by (relation "measure (\<lambda>(f, s). length s)") (auto dest!: dropWhile_Cons_length)

declare map_lines.simps [simp del]

text \<open>A line that is \<open>n\<close> hash signs, a space and at least one more character.\<close>

definition header_line :: "nat \<Rightarrow> string \<Rightarrow> string" where
  "header_line n l =
     (if take (n + 1) l = replicate n CHR ''#'' @ '' '' \<and> drop (n + 1) l \<noteq> []
      then ''<h'' @ show_nat n @ ''>'' @ drop (n + 1) l @ ''</h'' @ show_nat n @ ''>''
      else l)"

definition headers :: "nat \<Rightarrow> string \<Rightarrow> string" where
  "headers n s = map_lines (header_line n) s"

definition hr_html :: string where
  "hr_html = ''<hr style='' @ [CHR 0x22] @ ''border-color:var(--border);margin:16px 0'' @ [CHR 0x22] @ ''>''"

definition rule_line :: "string \<Rightarrow> string" where
  "rule_line l = (if l = ''---'' then hr_html else l)"

subsection \<open>Bold and italic\<close>

text \<open>
  \<^verbatim>\<open>/\*\*(.+?)\*\*/g\<close> and \<^verbatim>\<open>/\*(.+?)\*/g\<close>: the delimiter, then the shortest group of at
  least one character, none of them a line terminator, that the delimiter follows.
  \<open>lazy_dots\<close> finds that group in the text behind the opening delimiter.
\<close>

fun lazy_dots :: "string \<Rightarrow> string \<Rightarrow> (string \<times> string) option" where
  "lazy_dots pat [] = None"
| "lazy_dots pat (c # cs) =
     (if is_line_end c then None
      else if take (length pat) cs = pat then Some ([c], drop (length pat) cs)
      else map_option (\<lambda>(b, a). (c # b, a)) (lazy_dots pat cs))"

lemma lazy_dots_length: "lazy_dots pat s = Some (b, a) \<Longrightarrow> length a \<le> length s"
  by (induction s arbitrary: b) (auto split: if_splits)

function delimited :: "string \<Rightarrow> string \<Rightarrow> string \<Rightarrow> string" where
  "delimited pat tag [] = []"
| "delimited pat tag (c # cs) =
     (if pat \<noteq> [] \<and> take (length pat) (c # cs) = pat then
        (case lazy_dots pat (drop (length pat) (c # cs)) of
           Some (body, rest) \<Rightarrow> ''<'' @ tag @ ''>'' @ body @ ''</'' @ tag @ ''>'' @ delimited pat tag rest
         | None \<Rightarrow> c # delimited pat tag cs)
      else c # delimited pat tag cs)"
  by pat_completeness auto
termination
  by (relation "measure (\<lambda>(pat, tag, s). length s)")
    (auto dest!: lazy_dots_length simp: neq_Nil_conv)

subsection \<open>The chain\<close>

text \<open>The markup that \<^verbatim>\<open>renderMarkdown\<close> computes, in the order of its statements.\<close>

definition markdown_html :: "string \<Rightarrow> string" where
  "markdown_html text =
     (let html = escHtml text;
          html = code_blocks html;
          html = inline_code html;
          html = headers 3 html;
          html = headers 2 html;
          html = headers 1 html;
          html = delimited ''**'' ''strong'' html;
          html = delimited ''*'' ''em'' html;
          html = map_lines rule_line html
      in html)"

subsection \<open>Texts and their parts\<close>

text \<open>A text occurs in another when it is a contiguous part of it.\<close>

definition occurs_in :: "string \<Rightarrow> string \<Rightarrow> bool" where
  "occurs_in s t = (\<exists>a b. t = a @ s @ b)"

text \<open>
  The backticks of a text are paired when, read from the left, each backtick that is not
  yet taken is followed by a content that is not empty and by the backtick that closes
  it: the text is made of stretches without backticks and of complete single-backtick
  spans.
\<close>

function paired :: "string \<Rightarrow> bool" where
  "paired s =
     (case dropWhile (\<lambda>x. x \<noteq> backtick) s of
        [] \<Rightarrow> True
      | t # r \<Rightarrow> (case inline_body r of Some (body, rest) \<Rightarrow> paired rest | None \<Rightarrow> False))"
  by pat_completeness auto
termination
proof (relation "measure length")
  show "wf (measure length)" by simp
next
  fix s :: string and t r x body rest
  assume d: "dropWhile (\<lambda>x. x \<noteq> backtick) s = t # r"
    and i: "inline_body r = Some x" and x: "(body, rest) = x"
  have "length rest \<le> length r" using i x inline_body_length [of r body rest] by simp
  moreover have "length r < length s" using d [symmetric] by (rule dropWhile_Cons_length)
  ultimately show "(rest, s) \<in> measure length" by simp
qed

declare paired.simps [simp del]

section \<open>Statements that may throw\<close>

text \<open>
  A statement ends normally or throws, and in both cases leaves a page behind: what it
  changed before it threw stays changed.
\<close>

datatype completion = Normal page | Throw exn page

fun page_of :: "completion \<Rightarrow> page" where
  "page_of (Normal d) = d"
| "page_of (Throw e d) = d"

fun and_then :: "completion \<Rightarrow> (page \<Rightarrow> completion) \<Rightarrow> completion" where
  "and_then (Normal d) f = f d"
| "and_then (Throw e d) f = Throw e d"

fun for_each :: "('a \<Rightarrow> page \<Rightarrow> completion) \<Rightarrow> 'a list \<Rightarrow> page \<Rightarrow> completion" where
  "for_each f [] d = Normal d"
| "for_each f (x # xs) d = and_then (f x d) (for_each f xs)"

text \<open>The same for expressions that give a value or throw.\<close>

fun sbind :: "exn + 'a \<Rightarrow> ('a \<Rightarrow> exn + 'b) \<Rightarrow> exn + 'b" where
  "sbind (Inl e) f = Inl e"
| "sbind (Inr v) f = f v"

text \<open>What the engine throws when \<^verbatim>\<open>$(id)\<close> is \<^verbatim>\<open>null\<close> and a property of it is used.\<close>

definition null_style :: exn where
  "null_style = TypeError (''Cannot read properties of null (reading '' @ quoted ''style'' @ '')'')"

definition null_className :: exn where
  "null_className = TypeError (''Cannot set properties of null (setting '' @ quoted ''className'' @ '')'')"

section \<open>UI state helpers\<close>

text \<open>The body of the \<^verbatim>\<open>forEach\<close> in \<^verbatim>\<open>showOnly(id)\<close>, for the region \<open>s\<close>.\<close>

definition set_region :: "string \<Rightarrow> string \<Rightarrow> page \<Rightarrow> completion" where
  "set_region id0 s d =
     (if s \<in> missing d then Throw null_style d
      else Normal (d\<lparr>display := (display d)
             (s := (if s = id0 then (if s = ''resultState'' then ''block'' else ''flex'') else ''none''))\<rparr>))"

definition showOnly :: "string \<Rightarrow> page \<Rightarrow> completion" where
  "showOnly id0 d =
     for_each (set_region id0) [''emptyState'', ''loadingState'', ''resultState'', ''errorState''] d"

definition setStatus :: "string \<Rightarrow> string \<Rightarrow> page \<Rightarrow> page" where
  "setStatus label state d =
     d\<lparr>statusLabel_textContent := label,
       statusDot_className := ''status-dot'' @ (if state \<noteq> [] then '' '' @ state else [])\<rparr>"

text \<open>The ids of the four display regions that \<^verbatim>\<open>showOnly\<close> looks up.\<close>

definition regions :: "string set" where
  "regions = {''emptyState'', ''loadingState'', ''resultState'', ''errorState''}"

section \<open>Loading animation\<close>

record loading_message =
  msg_id :: string
  label :: string
  delay :: nat

definition loadingMessages :: "loading_message list" where
  "loadingMessages =
     [\<lparr>msg_id = ''ls1'', label = ''Fetching PubChem data'' @ ellipsis, delay = 0\<rparr>,
      \<lparr>msg_id = ''ls2'', label = ''Fetching RCSB PDB data'' @ ellipsis, delay = 2500\<rparr>,
      \<lparr>msg_id = ''ls3'', label = ''Running 7-step AI analysis'' @ ellipsis, delay = 5000\<rparr>,
      \<lparr>msg_id = ''ls4'', label = ''Generating report'' @ ellipsis, delay = 12000\<rparr>]"

text \<open>\<^verbatim>\<open>$(i).className = c\<close>\<close>

definition set_className :: "string \<Rightarrow> string \<Rightarrow> page \<Rightarrow> completion" where
  "set_className i c d =
     (if i \<in> missing d then Throw null_className d
      else Normal (d\<lparr>className := (className d)(i := c)\<rparr>))"

text \<open>The body of the \<^verbatim>\<open>forEach\<close> that resets the steps.\<close>

definition reset_step :: "loading_message \<Rightarrow> page \<Rightarrow> completion" where
  "reset_step m d =
     and_then (set_className (msg_id m) ''lstep'' d)
       (\<lambda>d1. Normal (d1\<lparr>textContent := (textContent d1)(msg_id m := label m)\<rparr>))"

text \<open>
  \<^verbatim>\<open>loadingMessages[i]\<close> is \<^verbatim>\<open>undefined\<close> beyond the table, and reading its \<^verbatim>\<open>id\<close>
  throws.
\<close>

definition message_at :: "nat \<Rightarrow> exn + loading_message" where
  "message_at i =
     (if i < length loadingMessages then Inr (loadingMessages ! i)
      else Inl (TypeError (''Cannot read properties of undefined (reading '' @ quoted ''id'' @ '')'')))"

definition set_step :: "nat \<Rightarrow> string \<Rightarrow> page \<Rightarrow> completion" where
  "set_step i c d =
     (case message_at i of
        Inl e \<Rightarrow> Throw e d
      | Inr m \<Rightarrow> set_className (msg_id m) c d)"

text \<open>
  The closure \<^verbatim>\<open>advance\<close> of the call number \<open>g\<close>, whose variable \<^verbatim>\<open>current\<close> is
  \<open>currents d ! g\<close>. (A callback exists only for a call that has been made; for any other
  \<open>g\<close> there is nothing to run.)
\<close>

definition advance :: "nat \<Rightarrow> page \<Rightarrow> completion" where
  "advance g d =
     (if g < length (currents d) then
        (let current = currents d ! g
         in and_then
              (if current > 0 then set_step (current - 1) ''lstep done'' d else Normal d)
              (\<lambda>d1. if current < length loadingMessages then
                      and_then (set_step current ''lstep active'' d1)
                        (\<lambda>d2. Normal (d2\<lparr>currents := (currents d2)[g := current + 1]\<rparr>))
                    else Normal d1))
      else Normal d)"

text \<open>
  The callback given to \<^verbatim>\<open>setInterval\<close>: if a next stage exists, \<^verbatim>\<open>setTimeout(advance, ...)\<close>
  with the difference of the two delays (a negative delay would count as zero).
\<close>

definition interval_body :: "nat \<Rightarrow> page \<Rightarrow> page" where
  "interval_body g d =
     (if g < length (currents d) then
        (let current = currents d ! g
         in if current < length loadingMessages then
              d\<lparr>timers := timers d @
                    [\<lparr>tid = next_tid d,
                      due = now d + (delay (loadingMessages ! current)
                              - (if current > 0 then delay (loadingMessages ! (current - 1)) else 0)),
                      period = None,
                      callback = Advance g\<rparr>],
                 next_tid := next_tid d + 1\<rparr>
            else d)
      else d)"

definition startLoadingAnimation :: "page \<Rightarrow> completion" where
  "startLoadingAnimation d =
     and_then (for_each reset_step loadingMessages d)
       (\<lambda>d1. let g = length (currents d1)
             in and_then (advance g (d1\<lparr>currents := currents d1 @ [0]\<rparr>))
                  (\<lambda>d2. Normal (d2\<lparr>loadingTimer := Some (next_tid d2),
                                    timers := timers d2 @
                                      [\<lparr>tid = next_tid d2, due = now d2 + 2500,
                                        period = Some 2500, callback = Interval_body g\<rparr>],
                                    next_tid := next_tid d2 + 1\<rparr>)))"

text \<open>
  \<^verbatim>\<open>clearInterval(loadingTimer); loadingTimer = null\<close>: the timer with that id leaves the
  table; \<^verbatim>\<open>clearInterval(null)\<close> does nothing.
\<close>

definition stopLoadingAnimation :: "page \<Rightarrow> page" where
  "stopLoadingAnimation d =
     d\<lparr>timers := (case loadingTimer d of
                     None \<Rightarrow> timers d
                   | Some i \<Rightarrow> filter (\<lambda>t. tid t \<noteq> i) (timers d)),
       loadingTimer := None\<rparr>"

subsection \<open>The host's timer loop\<close>

text \<open>
  The host runs the timer that is due first, and of two that are due together the one
  registered first. A timeout leaves the table when it runs; an interval stays, and is
  registered again when its callback has run. An exception that escapes a callback is
  reported on the console. \<open>fire_next\<close> is one such run (\<open>None\<close> with an empty table);
  \<open>fire_many k\<close> is up to \<open>k\<close> of them.
\<close>

fun earliest :: "timer list \<Rightarrow> timer option" where
  "earliest [] = None"
| "earliest (t # ts) =
     (case earliest ts of
        None \<Rightarrow> Some t
      | Some u \<Rightarrow> if due t \<le> due u then Some t else Some u)"

definition run_callback :: "callback \<Rightarrow> page \<Rightarrow> page" where
  "run_callback cb d =
     (case cb of
        Interval_body g \<Rightarrow> interval_body g d
      | Advance g \<Rightarrow>
          (case advance g d of
             Normal d' \<Rightarrow> d'
           | Throw e d' \<Rightarrow> d'\<lparr>console_errors := console_errors d' @ [e]\<rparr>))"

definition fire_next :: "page \<Rightarrow> page option" where
  "fire_next d =
     (case earliest (timers d) of
        None \<Rightarrow> None
      | Some t \<Rightarrow>
          (let d1 = d\<lparr>now := max (now d) (due t)\<rparr>
           in case period t of
                None \<Rightarrow>
                  Some (run_callback (callback t) (d1\<lparr>timers := filter (\<lambda>x. tid x \<noteq> tid t) (timers d1)\<rparr>))
              | Some p \<Rightarrow>
                  (let d2 = run_callback (callback t) d1
                   in Some (d2\<lparr>timers := filter (\<lambda>x. tid x \<noteq> tid t) (timers d2) @
                                  (if tid t \<in> tid ` set (timers d2) then [t\<lparr>due := now d1 + p\<rparr>] else [])\<rparr>))))"

fun fire_many :: "nat \<Rightarrow> page \<Rightarrow> page" where
  "fire_many 0 d = d"
| "fire_many (Suc k) d = (case fire_next d of None \<Rightarrow> d | Some d' \<Rightarrow> fire_many k d')"

section \<open>Rendering the result\<close>

text \<open>
  \<^verbatim>\<open>String(v)\<close>, which is also the message of \<^verbatim>\<open>new Error(v)\<close>, for values that come out
  of \<^verbatim>\<open>JSON.parse\<close> (an object there has no \<^verbatim>\<open>toString\<close> of its own unless the text
  gives it one; such bodies are outside this model).
\<close>

fun js_to_string :: "jsval \<Rightarrow> string" where
  "js_to_string JUndefined = ''undefined''"
| "js_to_string JNull = ''null''"
| "js_to_string (JBool b) = (if b then ''true'' else ''false'')"
| "js_to_string (JNum n) = show_int n"
| "js_to_string JNaN = ''NaN''"
| "js_to_string (JStr s) = s"
| "js_to_string (JArr xs) =
     join '','' (map (\<lambda>v. if v = JUndefined \<or> v = JNull then [] else js_to_string v) xs)"
| "js_to_string (JObj kvs) = ''[object Object]''"

text \<open>
  \<^verbatim>\<open>renderMarkdown(text)\<close>: the first statement calls \<^verbatim>\<open>text.replace\<close>, which only a
  string has. The result is the markup assigned to the new element's \<^verbatim>\<open>innerHTML\<close>.
\<close>

definition renderMarkdown :: "jsval \<Rightarrow> exn + string" where
  "renderMarkdown text =
     (case text of
        JStr s \<Rightarrow> Inr (markdown_html s)
      | _ \<Rightarrow> Inl (TypeError ''text.replace is not a function''))"

text \<open>The meta bar of \<^verbatim>\<open>renderResult\<close>, as its key and value pairs.\<close>

definition meta_items :: "host \<Rightarrow> jsval \<Rightarrow> jsval \<Rightarrow> exn + (string \<times> string) list" where
  "meta_items H data payload =
     sbind (get_prop data ''meta'') (\<lambda>m.
     let meta = js_or m (JObj []) in
     sbind (get_prop payload ''analysis_name'') (\<lambda>analysis_name.
     sbind (get_prop meta ''compound_queried'') (\<lambda>compound_queried.
     sbind (get_prop payload ''compound_name'') (\<lambda>compound_name.
     sbind (get_prop payload ''cid'') (\<lambda>payload_cid.
     sbind (get_prop meta ''pdb_id_queried'') (\<lambda>pdb_id_queried.
     sbind (get_prop payload ''pdb_id'') (\<lambda>pdb_id.
     sbind (get_prop meta ''model_used'') (\<lambda>model_used.
     sbind (get_prop meta ''tokens_used'') (\<lambda>tokens_used.
     sbind (if truthy tokens_used then get_prop tokens_used ''total_tokens'' else Inr JUndefined)
       (\<lambda>total_tokens.
     Inr ([(''Analysis'', escHtml (js_to_string analysis_name)),
           (''Compound'', escHtml (js_to_string
              (js_or compound_queried (js_or compound_name (js_or payload_cid (JStr em_dash)))))),
           (''Target (PDB)'', escHtml (js_to_string (js_or pdb_id_queried pdb_id))),
           (''Model'', escHtml (js_to_string (js_or model_used (JStr em_dash))))]
          @ (if truthy tokens_used
             then [(''Tokens'', toLocaleString H (js_or total_tokens (JNum 0)))] else []))))))))))))"

definition renderResult :: "host \<Rightarrow> jsval \<Rightarrow> jsval \<Rightarrow> page \<Rightarrow> completion" where
  "renderResult H data payload d =
     (case meta_items H data payload of
        Inl e \<Rightarrow> Throw e d
      | Inr items \<Rightarrow>
          (let d1 = d\<lparr>resultMeta_items := items, resultBody := No_content\<rparr>
           in case get_prop data ''report'' of
                Inl e \<Rightarrow> Throw e d1
              | Inr report \<Rightarrow>
                  if truthy report then
                    (case renderMarkdown report of
                       Inl e \<Rightarrow> Throw e d1
                     | Inr html \<Rightarrow> Normal (d1\<lparr>resultBody := Child_html html\<rparr>))
                  else Normal (d1\<lparr>resultBody := Text_content (JSON_stringify H data)\<rparr>)))"

section \<open>Running an analysis\<close>

text \<open>
  What the network gives back to one request: \<^verbatim>\<open>fetch\<close> rejects; or a response with a
  status arrives and \<^verbatim>\<open>res.json()\<close> rejects; or the response's body parses to a value.
\<close>

datatype transport = Fetch_rejects exn | Json_rejects nat exn | Response nat jsval

text \<open>\<^verbatim>\<open>res.ok\<close>: the status is in the range 200 to 299.\<close>

definition ok :: "nat \<Rightarrow> bool" where
  "ok status = (200 \<le> status \<and> status \<le> 299)"

text \<open>
  \<^verbatim>\<open>runAnalysis\<close> is asynchronous. Its first part runs until it returns early, throws, or
  has called \<^verbatim>\<open>fetch\<close> and waits: \<open>Returned\<close>, \<open>Unhandled\<close> (the promise of the call is
  rejected), \<open>Awaiting\<close> with the payload. A request is recorded with its URL and with what
  its JSON body holds.
\<close>

datatype run_start = Returned page | Unhandled exn page | Awaiting jsval page

fun started_page :: "run_start \<Rightarrow> page" where
  "started_page (Returned d) = d"
| "started_page (Unhandled e d) = d"
| "started_page (Awaiting payload d) = d"

fun started_payload :: "run_start \<Rightarrow> jsval" where
  "started_payload (Awaiting payload d) = payload"
| "started_payload r = JUndefined"

fun is_awaiting :: "run_start \<Rightarrow> bool" where
  "is_awaiting (Awaiting payload d) = True"
| "is_awaiting r = False"

fun is_unhandled :: "run_start \<Rightarrow> bool" where
  "is_unhandled (Unhandled e d) = True"
| "is_unhandled r = False"

definition alert_text :: "string list \<Rightarrow> string" where
  "alert_text errors =
     ''Please fix the following:'' @ [CHR 0x0A, CHR 0x0A] @ bullet @ '' ''
       @ join ([CHR 0x0A] @ bullet @ '' '') errors"

text \<open>The statements under \<^verbatim>\<open>// Lock UI\<close>, which stand before the \<^verbatim>\<open>try\<close>.\<close>

definition lock_ui :: "page \<Rightarrow> completion" where
  "lock_ui d =
     and_then (showOnly ''loadingState'' (d\<lparr>btnRun_disabled := True, outputActions_display := ''none''\<rparr>))
       (\<lambda>d1. startLoadingAnimation (setStatus (''Running'' @ ellipsis) ''loading'' d1))"

definition runAnalysis_start :: "host \<Rightarrow> page \<Rightarrow> run_start" where
  "runAnalysis_start H d =
     (let errors = validate H d
      in if errors \<noteq> [] then Returned (d\<lparr>alerts := alerts d @ [alert_text errors]\<rparr>)
         else
           (let webhookUrl' = trim (webhookUrl d)
            in case buildPayload H d of
                 Inl e \<Rightarrow> Unhandled e d
               | Inr payload \<Rightarrow>
                   (case lock_ui d of
                      Throw e d1 \<Rightarrow> Unhandled e d1
                    | Normal d1 \<Rightarrow>
                        Awaiting payload (d1\<lparr>fetches := fetches d1 @ [(webhookUrl', to_json payload)]\<rparr>))))"

text \<open>\<^verbatim>\<open>data.message || data.error || `HTTP ${res.status}`\<close>\<close>

definition failure_message :: "nat \<Rightarrow> jsval \<Rightarrow> exn + jsval" where
  "failure_message status data =
     sbind (get_prop data ''message'') (\<lambda>m.
       if truthy m then Inr m
       else sbind (get_prop data ''error'') (\<lambda>e.
         if truthy e then Inr e else Inr (JStr (''HTTP '' @ show_nat status))))"

text \<open>\<^verbatim>\<open>!res.ok || data.status === 'error'\<close>\<close>

definition signals_failure :: "nat \<Rightarrow> jsval \<Rightarrow> exn + bool" where
  "signals_failure status data =
     (if \<not> ok status then Inr True
      else sbind (get_prop data ''status'') (\<lambda>s. Inr (s = JStr ''error'')))"

text \<open>The statements under \<^verbatim>\<open>// Success\<close>.\<close>

definition on_success :: "host \<Rightarrow> jsval \<Rightarrow> jsval \<Rightarrow> page \<Rightarrow> completion" where
  "on_success H data payload d =
     (case get_prop data ''report'' of
        Inl e \<Rightarrow> Throw e d
      | Inr report \<Rightarrow>
          (let d1 = d\<lparr>lastReport := (if truthy report then report else JStr (JSON_stringify H data))\<rparr>
           in and_then (renderResult H data payload d1)
                (\<lambda>d2. and_then (showOnly ''resultState'' d2)
                   (\<lambda>d3. Normal (setStatus ''Complete'' [] (d3\<lparr>outputActions_display := ''flex''\<rparr>))))))"

definition try_block :: "host \<Rightarrow> jsval \<Rightarrow> transport \<Rightarrow> page \<Rightarrow> completion" where
  "try_block H payload t d =
     (case t of
        Fetch_rejects e \<Rightarrow> Throw e d
      | Json_rejects status e \<Rightarrow> Throw e d
      | Response status data \<Rightarrow>
          (let d1 = stopLoadingAnimation d
           in case signals_failure status data of
                Inl e \<Rightarrow> Throw e d1
              | Inr True \<Rightarrow>
                  (case failure_message status data of
                     Inl e \<Rightarrow> Throw e d1
                   | Inr v \<Rightarrow> Throw (Error (js_to_string v)) d1)
              | Inr False \<Rightarrow> on_success H data payload d1))"

definition unknown_error :: string where
  "unknown_error = ''Unknown error. Check the console for details.''"

definition catch_block :: "exn \<Rightarrow> page \<Rightarrow> completion" where
  "catch_block err d =
     (let d1 = stopLoadingAnimation d;
          d2 = d1\<lparr>errorMsg_textContent := (if message err \<noteq> [] then message err else unknown_error)\<rparr>
      in and_then (showOnly ''errorState'' d2)
           (\<lambda>d3. Normal ((setStatus ''Error'' ''error'' d3)\<lparr>console_errors := console_errors d3 @ [err]\<rparr>)))"

fun finally_block :: "completion \<Rightarrow> completion" where
  "finally_block (Normal d) = Normal (d\<lparr>btnRun_disabled := False\<rparr>)"
| "finally_block (Throw e d) = Throw e (d\<lparr>btnRun_disabled := False\<rparr>)"

text \<open>The second part of \<^verbatim>\<open>runAnalysis\<close>: from the settling of the request to the end.\<close>

definition runAnalysis_settle :: "host \<Rightarrow> jsval \<Rightarrow> transport \<Rightarrow> page \<Rightarrow> completion" where
  "runAnalysis_settle H payload t d =
     finally_block
       (case try_block H payload t d of
          Normal d1 \<Rightarrow> Normal d1
        | Throw e d1 \<Rightarrow> catch_block e d1)"

text \<open>
  One whole call: the first part, then \<open>k\<close> firings of pending timers while the request is
  outstanding, then the second part.
\<close>

definition runAnalysis :: "host \<Rightarrow> nat \<Rightarrow> transport \<Rightarrow> page \<Rightarrow> completion" where
  "runAnalysis H k t d =
     (case runAnalysis_start H d of
        Returned d1 \<Rightarrow> Normal d1
      | Unhandled e d1 \<Rightarrow> Throw e d1
      | Awaiting payload d1 \<Rightarrow> runAnalysis_settle H payload t (fire_many k d1))"

section \<open>Result actions and clearing the form\<close>

text \<open>
  \<^verbatim>\<open>copyReport\<close> and \<^verbatim>\<open>downloadReport\<close>, as what reaches the clipboard and the download;
  the label of the copy button, which changes for a moment, is not part of the page here.
\<close>

definition copyReport :: "page \<Rightarrow> page" where
  "copyReport d =
     (if \<not> truthy (lastReport d) then d
      else d\<lparr>clipboard := clipboard d @ [lastReport d]\<rparr>)"

definition is_alnum :: "char \<Rightarrow> bool" where
  "is_alnum c = (c \<in> set ''abcdefghijklmnopqrstuvwxyzABCDEFGHIJKLMNOPQRSTUVWXYZ0123456789'')"

definition ascii_lower :: "char \<Rightarrow> char" where
  "ascii_lower c =
     (if c \<in> set ''ABCDEFGHIJKLMNOPQRSTUVWXYZ'' then char_of (of_char c + (32::nat)) else c)"

definition download_name :: "string \<Rightarrow> string" where
  "download_name v =
     (let name = map ascii_lower (map (\<lambda>c. if is_alnum c then c else CHR ''_'') (trim v))
      in if name \<noteq> [] then name else ''biocore_report'')"

definition downloadReport :: "page \<Rightarrow> page" where
  "downloadReport d =
     (if \<not> truthy (lastReport d) then d
      else d\<lparr>downloads := downloads d @ [(download_name (projectName d) @ ''.md'', lastReport d)]\<rparr>)"

definition clearForm :: "page \<Rightarrow> completion" where
  "clearForm d =
     and_then
       (showOnly ''emptyState''
          (d\<lparr>projectName := [], projectDesc := [], compoundName := [], cid := [], pdbId := [],
             dockingJson := [], swissdockJson := [], pymolJson := []\<rparr>))
       (\<lambda>d1. Normal ((setStatus ''Ready'' [] (d1\<lparr>outputActions_display := ''none''\<rparr>))
                        \<lparr>lastReport := JStr []\<rparr>))"

section \<open>What the user sees\<close>

text \<open>The form state of the specification: the values of the nine input fields.\<close>

definition formState :: "page \<Rightarrow> string list" where
  "formState d =
     [projectName d, projectDesc d, compoundName d, cid d, pdbId d,
      dockingJson d, swissdockJson d, pymolJson d, webhookUrl d]"


text \<open>
  The run state of the specification, read off the region that \<^verbatim>\<open>showOnly\<close> has made
  visible; a failed run carries the text of the error region.
\<close>

datatype RunState = Idle | Running | Succeeded | Failed string

definition runState :: "page \<Rightarrow> RunState" where
  "runState d =
     (if display d ''loadingState'' = ''flex'' then Running
      else if display d ''resultState'' = ''block'' then Succeeded
      else if display d ''errorState'' = ''flex'' then Failed (errorMsg_textContent d)
      else Idle)"

text \<open>
  Modelled from the spec: the page's markup, which binds the submit control to
  \<^verbatim>\<open>runAnalysis\<close>, is not among the sources. The spec has a single run action on the
  submit control; a disabled control delivers no click. \<open>None\<close> is a click without effect.
\<close>

definition click_btnRun :: "host \<Rightarrow> page \<Rightarrow> run_start option" where
  "click_btnRun H d = (if btnRun_disabled d then None else Some (runAnalysis_start H d))"

section \<open>A host and a page for running the script\<close>

text \<open>
  The results below hold for every host. To run the script on concrete input, this host
  reads the fragment of JSON made of objects, arrays, strings without escapes, integers and
  the three literals, prints values the way \<^verbatim>\<open>JSON.stringify(v, null, 2)\<close> lays them out,
  and maps the case of ASCII letters.
\<close>

definition json_ws :: "char \<Rightarrow> bool" where
  "json_ws c = (c \<in> set [CHR 0x20, CHR 0x09, CHR 0x0A, CHR 0x0D])"

fun put_prop :: "string \<Rightarrow> jsval \<Rightarrow> (string \<times> jsval) list \<Rightarrow> (string \<times> jsval) list" where
  "put_prop k v [] = [(k, v)]"
| "put_prop k v ((k', v') # kvs) = (if k' = k then (k, v) # kvs else (k', v') # put_prop k v kvs)"

fun parse_value :: "nat \<Rightarrow> string \<Rightarrow> (jsval \<times> string) option"
  and parse_elements :: "nat \<Rightarrow> jsval list \<Rightarrow> string \<Rightarrow> (jsval \<times> string) option"
  and parse_members :: "nat \<Rightarrow> (string \<times> jsval) list \<Rightarrow> string \<Rightarrow> (jsval \<times> string) option"
where
  "parse_value 0 s = None"
| "parse_value (Suc n) s =
     (case dropWhile json_ws s of
        [] \<Rightarrow> None
      | c # r \<Rightarrow>
          if c = CHR ''{'' then
            (case dropWhile json_ws r of
               [] \<Rightarrow> None
             | c' # r' \<Rightarrow> if c' = CHR ''}'' then Some (JObj [], r') else parse_members n [] (c' # r'))
          else if c = CHR ''['' then
            (case dropWhile json_ws r of
               [] \<Rightarrow> None
             | c' # r' \<Rightarrow> if c' = CHR '']'' then Some (JArr [], r') else parse_elements n [] (c' # r'))
          else if c = CHR 0x22 then
            (let str = takeWhile (\<lambda>x. x \<noteq> CHR 0x22) r; rest = dropWhile (\<lambda>x. x \<noteq> CHR 0x22) r
             in if rest = [] \<or> CHR 0x5C \<in> set str then None else Some (JStr str, tl rest))
          else if is_digit c then
            (let ds = takeWhile is_digit (c # r)
             in if length ds > 1 \<and> c = CHR ''0'' then None
                else Some (JNum (int (foldl (\<lambda>a x. 10 * a + digit_val x) 0 ds)), dropWhile is_digit (c # r)))
          else if c = CHR ''-'' then
            (let ds = takeWhile is_digit r
             in if ds = [] \<or> (length ds > 1 \<and> hd ds = CHR ''0'') then None
                else Some (JNum (- int (foldl (\<lambda>a x. 10 * a + digit_val x) 0 ds)), dropWhile is_digit r))
          else if take 4 (c # r) = ''true'' then Some (JBool True, drop 4 (c # r))
          else if take 5 (c # r) = ''false'' then Some (JBool False, drop 5 (c # r))
          else if take 4 (c # r) = ''null'' then Some (JNull, drop 4 (c # r))
          else None)"
| "parse_elements 0 acc s = None"
| "parse_elements (Suc n) acc s =
     (case parse_value n s of
        None \<Rightarrow> None
      | Some (v, r) \<Rightarrow>
          (case dropWhile json_ws r of
             [] \<Rightarrow> None
           | c # r' \<Rightarrow>
               if c = CHR '','' then parse_elements n (acc @ [v]) r'
               else if c = CHR '']'' then Some (JArr (acc @ [v]), r')
               else None))"
| "parse_members 0 acc s = None"
| "parse_members (Suc n) acc s =
     (case parse_value n s of
        Some (JStr k, r) \<Rightarrow>
          (case dropWhile json_ws r of
             [] \<Rightarrow> None
           | c # r' \<Rightarrow>
               if c = CHR '':'' then
                 (case parse_value n r' of
                    None \<Rightarrow> None
                  | Some (v, r'') \<Rightarrow>
                      (case dropWhile json_ws r'' of
                         [] \<Rightarrow> None
                       | c' # r''' \<Rightarrow>
                           if c' = CHR '','' then parse_members n (put_prop k v acc) r'''
                           else if c' = CHR ''}'' then Some (JObj (put_prop k v acc), r''')
                           else None))
               else None)
      | _ \<Rightarrow> None)"

definition parse_json :: "string \<Rightarrow> jsval option" where
  "parse_json s =
     (case parse_value (Suc (length s)) s of
        Some (v, r) \<Rightarrow> if dropWhile json_ws r = [] then Some v else None
      | None \<Rightarrow> None)"

definition ascii_upper :: "char \<Rightarrow> char" where
  "ascii_upper c =
     (if c \<in> set ''abcdefghijklmnopqrstuvwxyz'' then char_of (of_char c - (32::nat)) else c)"

definition json_quote :: "string \<Rightarrow> string" where
  "json_quote s =
     CHR 0x22 # concat (map (\<lambda>c. if c = CHR 0x22 \<or> c = CHR 0x5C then [CHR 0x5C, c] else [c]) s)
       @ [CHR 0x22]"

fun stringify2 :: "nat \<Rightarrow> jsval \<Rightarrow> string" where
  "stringify2 i JUndefined = ''null''"
| "stringify2 i JNull = ''null''"
| "stringify2 i (JBool b) = (if b then ''true'' else ''false'')"
| "stringify2 i (JNum n) = show_int n"
| "stringify2 i JNaN = ''null''"
| "stringify2 i (JStr s) = json_quote s"
| "stringify2 i (JArr xs) =
     (if xs = [] then ''[]''
      else ''['' @ [CHR 0x0A] @ replicate (i + 2) CHR '' ''
        @ join ('','' @ [CHR 0x0A] @ replicate (i + 2) CHR '' '') (map (\<lambda>v. stringify2 (i + 2) v) xs)
        @ [CHR 0x0A] @ replicate i CHR '' '' @ '']'')"
| "stringify2 i (JObj kvs) =
     (if filter (\<lambda>(k, v). v \<noteq> JUndefined) kvs = [] then ''{}''
      else ''{'' @ [CHR 0x0A] @ replicate (i + 2) CHR '' ''
        @ join ('','' @ [CHR 0x0A] @ replicate (i + 2) CHR '' '')
            (map (\<lambda>(k, v). json_quote k @ '': '' @ stringify2 (i + 2) v)
               (filter (\<lambda>(k, v). v \<noteq> JUndefined) kvs))
        @ [CHR 0x0A] @ replicate i CHR '' '' @ ''}'')"

definition sample_host :: host where
  "sample_host =
     \<lparr>JSON_parse = parse_json,
      JSON_stringify = stringify2 0,
      toUpperCase = map ascii_upper,
      toLocaleString = js_to_string\<rparr>"

text \<open>
  The page as the script finds it when it has loaded (\<^verbatim>\<open>lastReport = ''\<close>,
  \<^verbatim>\<open>loadingTimer = null\<close>, nothing typed, every element present), and the same page with
  the required fields filled in. What the status line and the regions show at first is
  set by the page's markup; it stands here as \<^verbatim>\<open>clearForm\<close> would leave it.
\<close>

definition blank_page :: page where
  "blank_page =
     \<lparr>projectName = [], projectDesc = [], compoundName = [], cid = [], pdbId = [],
      dockingJson = [], swissdockJson = [], pymolJson = [], webhookUrl = [],
      btnRun_disabled = False, statusDot_className = ''status-dot'',
      statusLabel_textContent = ''Ready'', outputActions_display = ''none'',
      resultMeta_items = [], resultBody = No_content, errorMsg_textContent = [],
      missing = {}, display = (\<lambda>i. []), className = (\<lambda>i. []), textContent = (\<lambda>i. []),
      lastReport = JStr [], loadingTimer = None, currents = [], timers = [],
      next_tid = 1, now = 0, alerts = [], fetches = [], console_errors = [],
      clipboard = [], downloads = []\<rparr>"

definition filled_page :: page where
  "filled_page =
     blank_page\<lparr>projectName := ''Ibuprofen vs COX-2'', compoundName := ''ibuprofen'',
       pdbId := ''1EQG'', webhookUrl := ''https://n8n.example/webhook/biocore-analyze''\<rparr>"

text \<open>
  Forms for the payload builder: both identifier fields filled in; an identifier that is
  not a number; a docking blob; two other blobs with the identifier alone.
\<close>

definition both_page :: page where
  "both_page = filled_page\<lparr>cid := ''3672''\<rparr>"

definition letters_page :: page where
  "letters_page = filled_page\<lparr>compoundName := [], cid := ''abc''\<rparr>"

definition docking_page :: page where
  "docking_page = filled_page\<lparr>dockingJson := ''{\"poses\":[{\"rank\":1}]}''\<rparr>"

definition blobs_page :: page where
  "blobs_page =
     filled_page\<lparr>compoundName := [], cid := ''3672'', swissdockJson := '' [1, 2] '',
       pymolJson := ''{\"view\": \"cartoon\"}''\<rparr>"

text \<open>
  Two pages in the middle of a run: \<open>awaiting_page\<close> is the filled page after the first
  part of \<^verbatim>\<open>runAnalysis\<close>, with its request outstanding; \<open>no_steps_page\<close> is the filled
  page in a document that has no element \<^verbatim>\<open>ls1\<close>.
\<close>

definition awaiting_page :: page where
  "awaiting_page = started_page (runAnalysis_start sample_host filled_page)"

definition no_steps_page :: page where
  "no_steps_page = filled_page\<lparr>missing := {''ls1''}\<rparr>"

text \<open>The page that a first, successful run on the filled page leaves.\<close>

definition first_run_page :: page where
  "first_run_page =
     page_of (runAnalysis sample_host 0 (Response 200 (JObj [(''report'', JStr ''# First report'')]))
       filled_page)"

section \<open>Validation and payload: results\<close>

lemma json_field_errors_Nil:
  "json_field_errors H key v = [] \<longleftrightarrow> (trim v = [] \<or> JSON_parse H (trim v) \<noteq> None)"
  by (auto simp: json_field_errors_def Let_def split: option.splits)

lemma compound_required_not_json:
  "compound_required \<notin> set (json_field_errors H ''dockingJson'' v)"
  "compound_required \<notin> set (json_field_errors H ''swissdockJson'' v)"
  "compound_required \<notin> set (json_field_errors H ''pymolJson'' v)"
  by (auto simp: json_field_errors_def Let_def compound_required_def split: option.splits)

text \<open>
  Claim C8. A form that supplies both a compound name and a compound identifier (both
  non-blank after trimming) gets no compound error from \<open>validate\<close>; the compound error
  is among the errors exactly when both fields are blank.
\<close>

theorem validate_compound_inclusive_or:
  "(trim (compoundName d) \<noteq> [] \<and> trim (cid d) \<noteq> [] \<longrightarrow> compound_required \<notin> set (validate H d))
   \<and> (compound_required \<in> set (validate H d) \<longleftrightarrow> trim (compoundName d) = [] \<and> trim (cid d) = [])"
proof -
  have others: "compound_required \<noteq> name_required" "compound_required \<noteq> pdb_length"
    "compound_required \<noteq> webhook_required"
    by (simp_all add: compound_required_def name_required_def pdb_length_def webhook_required_def)
  have "compound_required \<in> set (validate H d) \<longleftrightarrow> trim (compoundName d) = [] \<and> trim (cid d) = []"
    using others compound_required_not_json [of H]
    by (auto simp: validate_def Let_def)
  then show ?thesis by blast
qed

theorem validate_compound_inclusive_or_witness:
  "trim (compoundName (filled_page\<lparr>cid := ''3672''\<rparr>)) \<noteq> []
   \<and> trim (cid (filled_page\<lparr>cid := ''3672''\<rparr>)) \<noteq> []
   \<and> compound_required \<notin> set (validate sample_host (filled_page\<lparr>cid := ''3672''\<rparr>))
   \<and> compound_required \<in> set (validate sample_host (filled_page\<lparr>compoundName := []\<rparr>))"
proof -
  have a: "trim (compoundName (filled_page\<lparr>cid := ''3672''\<rparr>)) \<noteq> []"
    by (simp add: filled_page_def blank_page_def trim_def trimEnd_def is_space_def)
  have b: "trim (cid (filled_page\<lparr>cid := ''3672''\<rparr>)) \<noteq> []"
    by (simp add: filled_page_def blank_page_def trim_def trimEnd_def is_space_def)
  have c: "trim (compoundName (filled_page\<lparr>compoundName := []\<rparr>)) = []"
    "trim (cid (filled_page\<lparr>compoundName := []\<rparr>)) = []"
    by (simp_all add: filled_page_def blank_page_def trim_def trimEnd_def is_space_def)
  show ?thesis
    using a b c validate_compound_inclusive_or [of "filled_page\<lparr>cid := ''3672''\<rparr>" sample_host]
      validate_compound_inclusive_or [of "filled_page\<lparr>compoundName := []\<rparr>" sample_host]
    by blast
qed

lemma validate_Nil:
  assumes "validate H d = []"
  shows "trim (projectName d) \<noteq> []"
    and "trim (compoundName d) \<noteq> [] \<or> trim (cid d) \<noteq> []"
    and "length (trim (pdbId d)) = 4"
    and "trim (webhookUrl d) \<noteq> []"
    and "trim (dockingJson d) = [] \<or> JSON_parse H (trim (dockingJson d)) \<noteq> None"
    and "trim (swissdockJson d) = [] \<or> JSON_parse H (trim (swissdockJson d)) \<noteq> None"
    and "trim (pymolJson d) = [] \<or> JSON_parse H (trim (pymolJson d)) \<noteq> None"
  using assms by (auto simp: validate_def Let_def json_field_errors_Nil split: if_splits)

lemma add_parsed_ok:
  "raw = [] \<or> JSON_parse H raw \<noteq> None \<Longrightarrow>
   add_parsed H key raw props =
     Inr (props @ (if raw \<noteq> [] then [(key, the (JSON_parse H raw))] else []))"
  by (auto simp: add_parsed_def split: option.splits)

lemma add_parsed_Inr:
  "add_parsed H key raw props = Inr ps \<Longrightarrow>
   (raw = [] \<or> JSON_parse H raw \<noteq> None)
   \<and> ps = props @ (if raw \<noteq> [] then [(key, the (JSON_parse H raw))] else [])"
  by (auto simp: add_parsed_def split: option.splits if_splits)

lemma buildPayload_Inr:
  assumes "buildPayload H d = Inr p"
  shows "p = JObj
     ([(''analysis_name'', JStr (trim (projectName d))),
       (''analysis_description'',
          if trim (projectDesc d) \<noteq> [] then JStr (trim (projectDesc d)) else JUndefined),
       (''pdb_id'', JStr (toUpperCase H (trim (pdbId d))))]
      @ (if trim (compoundName d) \<noteq> [] then [(''compound_name'', JStr (trim (compoundName d)))] else [])
      @ (if trim (cid d) \<noteq> [] then [(''cid'', parseInt10 (trim (cid d)))] else [])
      @ (if trim (dockingJson d) \<noteq> []
         then [(''docking_results'', the (JSON_parse H (trim (dockingJson d))))] else [])
      @ (if trim (swissdockJson d) \<noteq> []
         then [(''swissdock_results'', the (JSON_parse H (trim (swissdockJson d))))] else [])
      @ (if trim (pymolJson d) \<noteq> []
         then [(''pymol_data'', the (JSON_parse H (trim (pymolJson d))))] else []))"
proof -
  define p2 where "p2 =
      [(''analysis_name'', JStr (trim (projectName d))),
       (''analysis_description'',
          if trim (projectDesc d) \<noteq> [] then JStr (trim (projectDesc d)) else JUndefined),
       (''pdb_id'', JStr (toUpperCase H (trim (pdbId d))))]
      @ (if trim (compoundName d) \<noteq> [] then [(''compound_name'', JStr (trim (compoundName d)))] else [])
      @ (if trim (cid d) \<noteq> [] then [(''cid'', parseInt10 (trim (cid d)))] else [])"
  have unfolded: "buildPayload H d =
     (case add_parsed H ''docking_results'' (trim (dockingJson d)) p2 of
        Inl e \<Rightarrow> Inl e
      | Inr p3 \<Rightarrow>
          (case add_parsed H ''swissdock_results'' (trim (swissdockJson d)) p3 of
             Inl e \<Rightarrow> Inl e
           | Inr p4 \<Rightarrow>
               (case add_parsed H ''pymol_data'' (trim (pymolJson d)) p4 of
                  Inl e \<Rightarrow> Inl e
                | Inr p5 \<Rightarrow> Inr (JObj p5))))"
    unfolding buildPayload_def Let_def p2_def by simp
  obtain p3 where p3: "add_parsed H ''docking_results'' (trim (dockingJson d)) p2 = Inr p3"
    using assms by (cases "add_parsed H ''docking_results'' (trim (dockingJson d)) p2") (auto simp: unfolded)
  obtain p4 where p4: "add_parsed H ''swissdock_results'' (trim (swissdockJson d)) p3 = Inr p4"
    using assms
    by (cases "add_parsed H ''swissdock_results'' (trim (swissdockJson d)) p3") (auto simp: unfolded p3)
  obtain p5 where p5: "add_parsed H ''pymol_data'' (trim (pymolJson d)) p4 = Inr p5"
    using assms
    by (cases "add_parsed H ''pymol_data'' (trim (pymolJson d)) p4") (auto simp: unfolded p3 p4)
  have p: "p = JObj p5"
    using assms by (simp add: unfolded p3 p4 p5)
  show ?thesis
    unfolding p using add_parsed_Inr [OF p3] add_parsed_Inr [OF p4] add_parsed_Inr [OF p5]
    by (simp add: p2_def)
qed

lemma buildPayload_validated:
  assumes "validate H d = []"
  shows "\<exists>p. buildPayload H d = Inr p"
  using validate_Nil(5-7) [OF assms] unfolding buildPayload_def Let_def
  by (simp add: add_parsed_ok)

lemma has_key_to_json:
  "has_key (to_json (JObj kvs)) k \<longleftrightarrow> (\<exists>v. (k, v) \<in> set kvs \<and> v \<noteq> JUndefined)"
  by (force simp: image_iff)

text \<open>
  Claim C1, as the code has it. The two identifier keys are added by two independent
  tests: the payload has the compound-name key exactly when the name field is non-blank
  after trimming, and the numeric-id key exactly when the identifier field is, in the
  object and in its JSON body alike. With both fields filled in, both keys are present.
\<close>

theorem buildPayload_compound_keys:
  assumes "buildPayload H d = Inr p"
  shows "has_key p ''compound_name'' = (trim (compoundName d) \<noteq> [])
       \<and> has_key p ''cid'' = (trim (cid d) \<noteq> [])
       \<and> has_key (to_json p) ''compound_name'' = (trim (compoundName d) \<noteq> [])
       \<and> has_key (to_json p) ''cid'' = (trim (cid d) \<noteq> [])"
proof -
  note p = buildPayload_Inr [OF assms]
  have nu: "parseInt10 s \<noteq> JUndefined" for s
    by (simp add: parseInt10_def Let_def)
  have 1: "has_key p ''compound_name'' = (trim (compoundName d) \<noteq> [])" by (auto simp: p)
  have 2: "has_key p ''cid'' = (trim (cid d) \<noteq> [])" by (auto simp: p)
  have 3: "has_key (to_json p) ''compound_name'' = (trim (compoundName d) \<noteq> [])"
    unfolding p has_key_to_json by auto
  have 4: "has_key (to_json p) ''cid'' = (trim (cid d) \<noteq> [])"
    unfolding p has_key_to_json using nu by auto
  from 1 2 3 4 show ?thesis by blast
qed

theorem buildPayload_compound_keys_witness:
  "buildPayload sample_host both_page =
     Inr (JObj [(''analysis_name'', JStr ''Ibuprofen vs COX-2''), (''analysis_description'', JUndefined),
       (''pdb_id'', JStr ''1EQG''), (''compound_name'', JStr ''ibuprofen''), (''cid'', JNum 3672)])
   \<and> has_key (projr (buildPayload sample_host both_page)) ''compound_name''
   \<and> has_key (projr (buildPayload sample_host both_page)) ''cid''
   \<and> has_key (to_json (projr (buildPayload sample_host both_page))) ''compound_name''
   \<and> has_key (to_json (projr (buildPayload sample_host both_page))) ''cid''"
proof -
  have h: "buildPayload sample_host both_page =
     Inr (JObj [(''analysis_name'', JStr ''Ibuprofen vs COX-2''), (''analysis_description'', JUndefined),
       (''pdb_id'', JStr ''1EQG''), (''compound_name'', JStr ''ibuprofen''), (''cid'', JNum 3672)])"
    by code_simp
  have nb: "trim (compoundName both_page) \<noteq> []" "trim (cid both_page) \<noteq> []"
    by code_simp+
  show ?thesis
    using buildPayload_compound_keys [OF h] nb unfolding h by simp
qed

text \<open>
  Claim C1 as stated (exactly one of the two keys, never both) fails on a form with the
  name \<^verbatim>\<open>ibuprofen\<close> and the identifier \<^verbatim>\<open>3672\<close>.
\<close>

theorem payload_one_identifier_counterexample:
  "trim (compoundName both_page) \<noteq> [] \<and> trim (cid both_page) \<noteq> []
   \<and> \<not> isl (buildPayload sample_host both_page)
   \<and> has_key (projr (buildPayload sample_host both_page)) ''compound_name''
   \<and> has_key (projr (buildPayload sample_host both_page)) ''cid''"
  by code_simp

text \<open>
  Claim C5, as the code has it. Nothing rejects a non-blank identifier field for what it
  holds: a form that validates keeps validating when the field is replaced by any other
  non-blank text, and building its payload succeeds with \<^verbatim>\<open>cid\<close> set to what
  \<^verbatim>\<open>parseInt(field, 10)\<close> gives, the integer of the leading digits or \<^verbatim>\<open>NaN\<close>.
\<close>

theorem buildPayload_cid_parseInt:
  assumes "trim (cid d) \<noteq> []" and "validate H d = []"
  shows "(\<exists>p. buildPayload H d = Inr p \<and> get_prop p ''cid'' = Inr (parseInt10 (trim (cid d))))
       \<and> (\<forall>c. trim c \<noteq> [] \<longrightarrow> validate H (d\<lparr>cid := c\<rparr>) = [])"
proof -
  obtain p where p: "buildPayload H d = Inr p"
    using buildPayload_validated [OF assms(2)] by blast
  have "get_prop p ''cid'' = Inr (parseInt10 (trim (cid d)))"
    unfolding buildPayload_Inr [OF p] using assms(1) by auto
  moreover have "validate H (d\<lparr>cid := c\<rparr>) = []" if "trim c \<noteq> []" for c
    using assms(2) that by (auto simp: validate_def Let_def split: if_splits)
  ultimately show ?thesis using p by blast
qed

theorem buildPayload_cid_parseInt_witness:
  "trim (cid letters_page) \<noteq> [] \<and> validate sample_host letters_page = []
   \<and> get_prop (projr (buildPayload sample_host letters_page)) ''cid'' = Inr JNaN
   \<and> validate sample_host (letters_page\<lparr>cid := ''12abc''\<rparr>) = []
   \<and> get_prop (projr (buildPayload sample_host (letters_page\<lparr>cid := ''12abc''\<rparr>))) ''cid'' = Inr (JNum 12)"
proof -
  have a: "trim (cid letters_page) \<noteq> []" by code_simp
  have b: "validate sample_host letters_page = []" by code_simp
  have c: "trim ''12abc'' \<noteq> []" by code_simp
  have a': "trim (cid (letters_page\<lparr>cid := ''12abc''\<rparr>)) \<noteq> []" by code_simp
  have v: "parseInt10 (trim (cid letters_page)) = JNaN"
    "parseInt10 (trim (cid (letters_page\<lparr>cid := ''12abc''\<rparr>))) = JNum 12"
    by code_simp+
  from buildPayload_cid_parseInt [OF a b] c
  have b': "validate sample_host (letters_page\<lparr>cid := ''12abc''\<rparr>) = []" by blast
  from buildPayload_cid_parseInt [OF a b] buildPayload_cid_parseInt [OF a' b'] a b b' v
  show ?thesis by auto
qed

text \<open>
  Claim C5 as stated fails on the identifier \<^verbatim>\<open>abc\<close>: validation reports nothing and
  the payload is built, with \<^verbatim>\<open>NaN\<close> as the identifier.
\<close>

theorem cid_rejection_counterexample:
  "trim (cid letters_page) \<noteq> [] \<and> \<not> list_all is_digit (trim (cid letters_page))
   \<and> validate sample_host letters_page = []
   \<and> buildPayload sample_host letters_page =
       Inr (JObj [(''analysis_name'', JStr ''Ibuprofen vs COX-2''), (''analysis_description'', JUndefined),
         (''pdb_id'', JStr ''1EQG''), (''cid'', JNaN)])"
  by code_simp

text \<open>
  Claim C9, as the code has it. For a form that validates, the payload is built; the keys
  of the three JSON fields and of the two identifier fields are absent when their field
  is blank after trimming; a non-blank JSON field appears as the value \<^verbatim>\<open>JSON.parse\<close>
  gives for its trimmed text. The description key is always a property of the object: with
  a blank description it holds \<^verbatim>\<open>undefined\<close> (not \<^verbatim>\<open>null\<close>), and the JSON body of the
  request does not have it.
\<close>

theorem buildPayload_optional_keys:
  assumes "validate H d = []"
  shows "\<exists>p. buildPayload H d = Inr p
     \<and> (trim (dockingJson d) = [] \<longrightarrow> \<not> has_key p ''docking_results'')
     \<and> (trim (swissdockJson d) = [] \<longrightarrow> \<not> has_key p ''swissdock_results'')
     \<and> (trim (pymolJson d) = [] \<longrightarrow> \<not> has_key p ''pymol_data'')
     \<and> (trim (compoundName d) = [] \<longrightarrow> \<not> has_key p ''compound_name'')
     \<and> (trim (cid d) = [] \<longrightarrow> \<not> has_key p ''cid'')
     \<and> has_key p ''analysis_description''
     \<and> (trim (projectDesc d) = [] \<longrightarrow>
          get_prop p ''analysis_description'' = Inr JUndefined
          \<and> \<not> has_key (to_json p) ''analysis_description'')
     \<and> (trim (dockingJson d) \<noteq> [] \<longrightarrow>
          (\<exists>v. JSON_parse H (trim (dockingJson d)) = Some v \<and> get_prop p ''docking_results'' = Inr v))
     \<and> (trim (swissdockJson d) \<noteq> [] \<longrightarrow>
          (\<exists>v. JSON_parse H (trim (swissdockJson d)) = Some v \<and> get_prop p ''swissdock_results'' = Inr v))
     \<and> (trim (pymolJson d) \<noteq> [] \<longrightarrow>
          (\<exists>v. JSON_parse H (trim (pymolJson d)) = Some v \<and> get_prop p ''pymol_data'' = Inr v))"
proof -
  obtain p where p: "buildPayload H d = Inr p"
    using buildPayload_validated [OF assms] by blast
  note s = buildPayload_Inr [OF p]
  note ok = validate_Nil(5-7) [OF assms]
  have 1: "trim (dockingJson d) = [] \<longrightarrow> \<not> has_key p ''docking_results''"
    unfolding s by auto
  have 2: "trim (swissdockJson d) = [] \<longrightarrow> \<not> has_key p ''swissdock_results''"
    unfolding s by auto
  have 3: "trim (pymolJson d) = [] \<longrightarrow> \<not> has_key p ''pymol_data''"
    unfolding s by auto
  have 4: "trim (compoundName d) = [] \<longrightarrow> \<not> has_key p ''compound_name''"
    unfolding s by auto
  have 5: "trim (cid d) = [] \<longrightarrow> \<not> has_key p ''cid''"
    unfolding s by auto
  have 6: "has_key p ''analysis_description''"
    unfolding s by simp
  have 7: "trim (projectDesc d) = [] \<longrightarrow> get_prop p ''analysis_description'' = Inr JUndefined"
    unfolding s by simp
  have 8: "trim (projectDesc d) = [] \<longrightarrow> \<not> has_key (to_json p) ''analysis_description''"
    unfolding s has_key_to_json by auto
  have 9: "trim (dockingJson d) \<noteq> [] \<longrightarrow>
      (\<exists>v. JSON_parse H (trim (dockingJson d)) = Some v \<and> get_prop p ''docking_results'' = Inr v)"
    unfolding s using ok(1) by auto
  have 10: "trim (swissdockJson d) \<noteq> [] \<longrightarrow>
      (\<exists>v. JSON_parse H (trim (swissdockJson d)) = Some v \<and> get_prop p ''swissdock_results'' = Inr v)"
    unfolding s using ok(2) by auto
  have 11: "trim (pymolJson d) \<noteq> [] \<longrightarrow>
      (\<exists>v. JSON_parse H (trim (pymolJson d)) = Some v \<and> get_prop p ''pymol_data'' = Inr v)"
    unfolding s using ok(3) by auto
  from p 1 2 3 4 5 6 7 8 9 10 11 show ?thesis by blast
qed

theorem buildPayload_optional_keys_witness:
  "validate sample_host docking_page = []
   \<and> get_prop (projr (buildPayload sample_host docking_page)) ''docking_results''
       = Inr (JObj [(''poses'', JArr [JObj [(''rank'', JNum 1)]])])
   \<and> \<not> has_key (projr (buildPayload sample_host docking_page)) ''swissdock_results''
   \<and> \<not> has_key (projr (buildPayload sample_host docking_page)) ''pymol_data''
   \<and> \<not> has_key (projr (buildPayload sample_host docking_page)) ''cid''
   \<and> \<not> has_key (to_json (projr (buildPayload sample_host docking_page))) ''analysis_description''
   \<and> validate sample_host blobs_page = []
   \<and> \<not> has_key (projr (buildPayload sample_host blobs_page)) ''docking_results''
   \<and> \<not> has_key (projr (buildPayload sample_host blobs_page)) ''compound_name''
   \<and> get_prop (projr (buildPayload sample_host blobs_page)) ''swissdock_results''
       = Inr (JArr [JNum 1, JNum 2])
   \<and> get_prop (projr (buildPayload sample_host blobs_page)) ''pymol_data''
       = Inr (JObj [(''view'', JStr ''cartoon'')])"
proof -
  have va: "validate sample_host docking_page = []" by code_simp
  have vb: "validate sample_host blobs_page = []" by code_simp
  have blank_a: "trim (swissdockJson docking_page) = []" "trim (pymolJson docking_page) = []"
    "trim (cid docking_page) = []" "trim (projectDesc docking_page) = []"
    by code_simp+
  have blank_b: "trim (dockingJson blobs_page) = []" "trim (compoundName blobs_page) = []"
    by code_simp+
  have parsed_a: "trim (dockingJson docking_page) \<noteq> []"
    "JSON_parse sample_host (trim (dockingJson docking_page))
       = Some (JObj [(''poses'', JArr [JObj [(''rank'', JNum 1)]])])"
    by code_simp+
  have parsed_b: "trim (swissdockJson blobs_page) \<noteq> []" "trim (pymolJson blobs_page) \<noteq> []"
    "JSON_parse sample_host (trim (swissdockJson blobs_page)) = Some (JArr [JNum 1, JNum 2])"
    "JSON_parse sample_host (trim (pymolJson blobs_page)) = Some (JObj [(''view'', JStr ''cartoon'')])"
    by code_simp+
  from buildPayload_optional_keys [OF va] blank_a parsed_a
  have a: "get_prop (projr (buildPayload sample_host docking_page)) ''docking_results''
       = Inr (JObj [(''poses'', JArr [JObj [(''rank'', JNum 1)]])])
   \<and> \<not> has_key (projr (buildPayload sample_host docking_page)) ''swissdock_results''
   \<and> \<not> has_key (projr (buildPayload sample_host docking_page)) ''pymol_data''
   \<and> \<not> has_key (projr (buildPayload sample_host docking_page)) ''cid''
   \<and> \<not> has_key (to_json (projr (buildPayload sample_host docking_page))) ''analysis_description''"
    by auto
  from buildPayload_optional_keys [OF vb] blank_b parsed_b
  have b: "\<not> has_key (projr (buildPayload sample_host blobs_page)) ''docking_results''
   \<and> \<not> has_key (projr (buildPayload sample_host blobs_page)) ''compound_name''
   \<and> get_prop (projr (buildPayload sample_host blobs_page)) ''swissdock_results''
       = Inr (JArr [JNum 1, JNum 2])
   \<and> get_prop (projr (buildPayload sample_host blobs_page)) ''pymol_data''
       = Inr (JObj [(''view'', JStr ''cartoon'')])"
    by auto
  from va vb a b show ?thesis by blast
qed

text \<open>
  Claim C9 as stated (no key for a blank optional field) fails for the description, whose
  key the object literal always sets.
\<close>

theorem payload_absent_key_counterexample:
  "validate sample_host filled_page = [] \<and> trim (projectDesc filled_page) = []
   \<and> \<not> isl (buildPayload sample_host filled_page)
   \<and> has_key (projr (buildPayload sample_host filled_page)) ''analysis_description''"
  by code_simp

section \<open>What a step leaves unchanged\<close>

lemma set_region_frame: "\<exists>f. page_of (set_region i r d) = d\<lparr>display := f\<rparr>"
proof (cases "r \<in> missing d")
  case True
  then have "page_of (set_region i r d) = d\<lparr>display := display d\<rparr>"
    by (simp add: set_region_def)
  then show ?thesis by blast
next
  case False
  then show ?thesis by (auto simp: set_region_def)
qed

lemma for_each_set_region_frame: "\<exists>f. page_of (for_each (set_region i) rs d) = d\<lparr>display := f\<rparr>"
proof (induction rs arbitrary: d)
  case Nil
  have "page_of (for_each (set_region i) [] d) = d\<lparr>display := display d\<rparr>" by simp
  then show ?case by blast
next
  case (Cons r rs)
  obtain f where f: "page_of (set_region i r d) = d\<lparr>display := f\<rparr>"
    using set_region_frame by blast
  show ?case
  proof (cases "set_region i r d")
    case (Normal d1)
    with f have d1: "d1 = d\<lparr>display := f\<rparr>" by simp
    obtain g where "page_of (for_each (set_region i) rs d1) = d1\<lparr>display := g\<rparr>"
      using Cons.IH by blast
    then have "page_of (for_each (set_region i) (r # rs) d) = d\<lparr>display := g\<rparr>"
      using Normal d1 by simp
    then show ?thesis by blast
  next
    case (Throw e d1)
    with f have "page_of (for_each (set_region i) (r # rs) d) = d\<lparr>display := f\<rparr>" by simp
    then show ?thesis by blast
  qed
qed

lemma showOnly_frame: "\<exists>f. page_of (showOnly i d) = d\<lparr>display := f\<rparr>"
  unfolding showOnly_def by (rule for_each_set_region_frame)

lemma showOnly_keeps:
  "errorMsg_textContent (page_of (showOnly i d)) = errorMsg_textContent d"
  "btnRun_disabled (page_of (showOnly i d)) = btnRun_disabled d"
  "lastReport (page_of (showOnly i d)) = lastReport d"
  "fetches (page_of (showOnly i d)) = fetches d"
  "missing (page_of (showOnly i d)) = missing d"
  "timers (page_of (showOnly i d)) = timers d"
  "loadingTimer (page_of (showOnly i d)) = loadingTimer d"
  "currents (page_of (showOnly i d)) = currents d"
  "className (page_of (showOnly i d)) = className d"
  "textContent (page_of (showOnly i d)) = textContent d"
  "next_tid (page_of (showOnly i d)) = next_tid d"
  "now (page_of (showOnly i d)) = now d"
  "console_errors (page_of (showOnly i d)) = console_errors d"
  using showOnly_frame [of i d] by auto

lemma showOnly_present:
  assumes "regions \<inter> missing d = {}"
  shows "showOnly i d = Normal (d\<lparr>display := (display d)
     (''emptyState'' := (if ''emptyState'' = i then ''flex'' else ''none''),
      ''loadingState'' := (if ''loadingState'' = i then ''flex'' else ''none''),
      ''resultState'' := (if ''resultState'' = i then ''block'' else ''none''),
      ''errorState'' := (if ''errorState'' = i then ''flex'' else ''none''))\<rparr>)"
  using assms by (simp add: showOnly_def set_region_def regions_def)

lemma and_then_keeps:
  assumes "g (page_of c) = x" and "\<And>d1. g (page_of (f d1)) = g d1"
  shows "g (page_of (and_then c f)) = x"
  using assms by (cases c) auto

lemma for_each_keeps:
  assumes "\<And>x d. g (page_of (f x d)) = g d"
  shows "g (page_of (for_each f xs d)) = g d"
proof (induction xs arbitrary: d)
  case Nil
  show ?case by simp
next
  case (Cons x xs)
  show ?case
  proof (cases "f x d")
    case (Normal d1)
    have "g d1 = g d" using assms [of x d] Normal by simp
    then show ?thesis using Normal Cons.IH [of d1] by simp
  next
    case (Throw e d1)
    then show ?thesis using assms [of x d] by simp
  qed
qed

lemma set_className_keeps:
  assumes "\<And>d a. g (d\<lparr>className := a\<rparr>) = g d"
  shows "g (page_of (set_className i c d)) = g d"
  using assms by (simp add: set_className_def)

lemma set_step_keeps:
  assumes "\<And>d a. g (d\<lparr>className := a\<rparr>) = g d"
  shows "g (page_of (set_step i c d)) = g d"
proof -
  have "g (page_of (set_className j c d)) = g d" for j
    by (rule set_className_keeps) (rule assms)
  then show ?thesis
    by (cases "message_at i") (simp_all add: set_step_def)
qed

lemma reset_step_keeps:
  assumes "\<And>d a. g (d\<lparr>className := a\<rparr>) = g d" and "\<And>d a. g (d\<lparr>textContent := a\<rparr>) = g d"
  shows "g (page_of (reset_step m d)) = g d"
proof -
  have a: "g (page_of (set_className (msg_id m) ''lstep'' d)) = g d"
    by (rule set_className_keeps) (rule assms(1))
  show ?thesis
    unfolding reset_step_def using a
    by (cases "set_className (msg_id m) ''lstep'' d") (simp_all add: assms(2))
qed

lemma advance_keeps:
  assumes "\<And>d a. g (d\<lparr>className := a\<rparr>) = g d" and "\<And>d a. g (d\<lparr>currents := a\<rparr>) = g d"
  shows "g (page_of (advance k d)) = g d"
proof (cases "k < length (currents d)")
  case False
  then show ?thesis by (simp add: advance_def)
next
  case True
  have ss: "g (page_of (set_step i c d0)) = g d0" for i c d0
    by (rule set_step_keeps) (rule assms(1))
  define c1 where "c1 = (if 0 < currents d ! k then set_step (currents d ! k - 1) ''lstep done'' d
      else Normal d)"
  define f where "f = (\<lambda>d1. if currents d ! k < length loadingMessages
        then and_then (set_step (currents d ! k) ''lstep active'' d1)
               (\<lambda>d2. Normal (d2\<lparr>currents := (currents d2)[k := currents d ! k + 1]\<rparr>))
        else Normal d1)"
  have first: "g (page_of c1) = g d"
    by (simp add: c1_def ss)
  have rest: "g (page_of (f d1)) = g d1" for d1
    using ss [of "currents d ! k" "''lstep active''" d1]
    by (cases "set_step (currents d ! k) ''lstep active'' d1") (simp_all add: f_def assms(2))
  have "advance k d = and_then c1 f"
    using True by (simp add: advance_def Let_def c1_def f_def)
  then show ?thesis
    using first rest by (cases c1) simp_all
qed

lemma interval_body_keeps:
  assumes "\<And>d a. g (d\<lparr>timers := a\<rparr>) = g d" and "\<And>d a. g (d\<lparr>next_tid := a\<rparr>) = g d"
  shows "g (interval_body k d) = g d"
  by (simp add: interval_body_def Let_def assms)

lemma run_callback_keeps:
  assumes "\<And>d a. g (d\<lparr>className := a\<rparr>) = g d" and "\<And>d a. g (d\<lparr>currents := a\<rparr>) = g d"
    and "\<And>d a. g (d\<lparr>timers := a\<rparr>) = g d" and "\<And>d a. g (d\<lparr>next_tid := a\<rparr>) = g d"
    and "\<And>d a. g (d\<lparr>console_errors := a\<rparr>) = g d"
  shows "g (run_callback cb d) = g d"
proof (cases cb)
  case (Interval_body k)
  then show ?thesis
    using interval_body_keeps [of g k d] assms(3,4) by (simp add: run_callback_def)
next
  case (Advance k)
  have "g (page_of (advance k d)) = g d" by (rule advance_keeps) (rule assms(1), rule assms(2))
  then show ?thesis
    using Advance by (cases "advance k d") (simp_all add: run_callback_def assms(5))
qed

lemma fire_next_keeps:
  assumes "\<And>d a. g (d\<lparr>className := a\<rparr>) = g d" and "\<And>d a. g (d\<lparr>currents := a\<rparr>) = g d"
    and "\<And>d a. g (d\<lparr>timers := a\<rparr>) = g d" and "\<And>d a. g (d\<lparr>next_tid := a\<rparr>) = g d"
    and "\<And>d a. g (d\<lparr>console_errors := a\<rparr>) = g d" and "\<And>d a. g (d\<lparr>now := a\<rparr>) = g d"
    and "fire_next d = Some d'"
  shows "g d' = g d"
proof -
  have rc: "g (run_callback cb d0) = g d0" for cb d0
    by (rule run_callback_keeps) (rule assms(1), rule assms(2), rule assms(3), rule assms(4), rule assms(5))
  from assms(7) obtain t where t: "earliest (timers d) = Some t"
    by (auto simp: fire_next_def split: option.splits)
  show ?thesis
  proof (cases "period t")
    case None
    with assms(7) t have "d' = run_callback (callback t)
        (d\<lparr>now := max (now d) (due t), timers := filter (\<lambda>x. tid x \<noteq> tid t) (timers d)\<rparr>)"
      by (auto simp: fire_next_def Let_def)
    then show ?thesis by (simp add: rc assms(3,6))
  next
    case (Some p)
    define d2 where "d2 = run_callback (callback t) (d\<lparr>now := max (now d) (due t)\<rparr>)"
    from assms(7) t Some have "\<exists>e. d' = d2\<lparr>timers := e\<rparr>"
      by (auto simp: fire_next_def Let_def d2_def)
    then have "g d' = g d2" by (auto simp: assms(3))
    also have "g d2 = g d" unfolding d2_def by (simp add: rc assms(6))
    finally show ?thesis .
  qed
qed

lemma fire_many_keeps:
  assumes "\<And>d a. g (d\<lparr>className := a\<rparr>) = g d" and "\<And>d a. g (d\<lparr>currents := a\<rparr>) = g d"
    and "\<And>d a. g (d\<lparr>timers := a\<rparr>) = g d" and "\<And>d a. g (d\<lparr>next_tid := a\<rparr>) = g d"
    and "\<And>d a. g (d\<lparr>console_errors := a\<rparr>) = g d" and "\<And>d a. g (d\<lparr>now := a\<rparr>) = g d"
  shows "g (fire_many k d) = g d"
proof (induction k arbitrary: d)
  case 0
  show ?case by simp
next
  case (Suc k)
  show ?case
  proof (cases "fire_next d")
    case None
    then show ?thesis by simp
  next
    case (Some d')
    have "g d' = g d"
      by (rule fire_next_keeps [where g = g and d = d])
        (rule assms(1), rule assms(2), rule assms(3), rule assms(4), rule assms(5), rule assms(6), rule Some)
    then show ?thesis using Some Suc.IH [of d'] by simp
  qed
qed

lemma startLoadingAnimation_keeps:
  assumes "\<And>d a. g (d\<lparr>className := a\<rparr>) = g d" and "\<And>d a. g (d\<lparr>currents := a\<rparr>) = g d"
    and "\<And>d a. g (d\<lparr>timers := a\<rparr>) = g d" and "\<And>d a. g (d\<lparr>next_tid := a\<rparr>) = g d"
    and "\<And>d a. g (d\<lparr>textContent := a\<rparr>) = g d" and "\<And>d a. g (d\<lparr>loadingTimer := a\<rparr>) = g d"
  shows "g (page_of (startLoadingAnimation d)) = g d"
proof -
  define c1 where "c1 = for_each reset_step loadingMessages d"
  define f where "f = (\<lambda>d1. let k = length (currents d1)
             in and_then (advance k (d1\<lparr>currents := currents d1 @ [0]\<rparr>))
                  (\<lambda>d2. Normal (d2\<lparr>loadingTimer := Some (next_tid d2),
                                    timers := timers d2 @
                                      [\<lparr>tid = next_tid d2, due = now d2 + 2500,
                                        period = Some 2500, callback = Interval_body k\<rparr>],
                                    next_tid := next_tid d2 + 1\<rparr>)))"
  have rs: "g (page_of (reset_step m d0)) = g d0" for m d0
    by (rule reset_step_keeps) (rule assms(1), rule assms(5))
  have first: "g (page_of c1) = g d"
    unfolding c1_def by (rule for_each_keeps) (rule rs)
  have adv: "g (page_of (advance k d0)) = g d0" for k d0
    by (rule advance_keeps) (rule assms(1), rule assms(2))
  have rest: "g (page_of (f d1)) = g d1" for d1
    using adv [of "length (currents d1)" "d1\<lparr>currents := currents d1 @ [0]\<rparr>"]
    by (cases "advance (length (currents d1)) (d1\<lparr>currents := currents d1 @ [0]\<rparr>)")
      (simp_all add: f_def Let_def assms(2,3,4,6))
  have "startLoadingAnimation d = and_then c1 f"
    by (simp add: startLoadingAnimation_def c1_def f_def)
  then show ?thesis
    using first rest by (cases c1) simp_all
qed

section \<open>The loading animation: results\<close>

lemma blank_page_narrator:
  "missing blank_page = {}" "currents blank_page = []" "timers blank_page = []"
  "next_tid blank_page = 1" "now blank_page = 0" "loadingTimer blank_page = None"
  "className blank_page = (\<lambda>i. [])" "textContent blank_page = (\<lambda>i. [])"
  by (simp_all add: blank_page_def)

lemma startLoadingAnimation_present:
  assumes "missing d = {}"
  shows "startLoadingAnimation d = Normal
     (d\<lparr>textContent := (textContent d)
          (''ls1'' := ''Fetching PubChem data'' @ ellipsis,
           ''ls2'' := ''Fetching RCSB PDB data'' @ ellipsis,
           ''ls3'' := ''Running 7-step AI analysis'' @ ellipsis,
           ''ls4'' := ''Generating report'' @ ellipsis),
        className := (className d)
          (''ls2'' := ''lstep'', ''ls3'' := ''lstep'', ''ls4'' := ''lstep'', ''ls1'' := ''lstep active''),
        currents := currents d @ [1],
        loadingTimer := Some (next_tid d),
        timers := timers d @
          [\<lparr>tid = next_tid d, due = now d + 2500, period = Some 2500,
            callback = Interval_body (length (currents d))\<rparr>],
        next_tid := Suc (next_tid d)\<rparr>)"
  using assms
  by (simp add: startLoadingAnimation_def loadingMessages_def reset_step_def set_className_def
      advance_def set_step_def message_at_def Let_def)

text \<open>
  Claim C2, evaluated on the page as loaded. \<^verbatim>\<open>startLoadingAnimation\<close> runs at time 0;
  the interval fires at 2500 and registers \<^verbatim>\<open>setTimeout(advance, 2500)\<close>; then
  \<^verbatim>\<open>stopLoadingAnimation\<close> runs. The interval is gone and \<^verbatim>\<open>loadingTimer\<close> is
  \<^verbatim>\<open>null\<close>, but the timeout is still in the table, and when it fires at 5000 the first
  step becomes done and the second active: a transition after the stop.
\<close>

theorem stop_leaves_timeout_pending:
  "timers (stopLoadingAnimation (fire_many 1 (page_of (startLoadingAnimation blank_page))))
     = [\<lparr>tid = 2, due = 5000, period = None, callback = Advance 0\<rparr>]
   \<and> loadingTimer (stopLoadingAnimation (fire_many 1 (page_of (startLoadingAnimation blank_page)))) = None
   \<and> map (className (stopLoadingAnimation (fire_many 1 (page_of (startLoadingAnimation blank_page)))))
        [''ls1'', ''ls2'', ''ls3'', ''ls4'']
     = [''lstep active'', ''lstep'', ''lstep'', ''lstep'']
   \<and> map (className (fire_many 1 (stopLoadingAnimation (fire_many 1 (page_of (startLoadingAnimation blank_page))))))
        [''ls1'', ''ls2'', ''ls3'', ''ls4'']
     = [''lstep done'', ''lstep active'', ''lstep'', ''lstep'']
   \<and> now (fire_many 1 (stopLoadingAnimation (fire_many 1 (page_of (startLoadingAnimation blank_page))))) = 5000"
proof -
  define s1 where "s1 = page_of (startLoadingAnimation blank_page)"
  have s1: "missing s1 = {}" "currents s1 = [1]" "loadingTimer s1 = Some 1" "next_tid s1 = 2" "now s1 = 0"
    "timers s1 = [\<lparr>tid = 1, due = 2500, period = Some 2500, callback = Interval_body 0\<rparr>]"
    "map (className s1) [''ls1'', ''ls2'', ''ls3'', ''ls4''] = [''lstep active'', ''lstep'', ''lstep'', ''lstep'']"
    unfolding s1_def by (simp_all add: startLoadingAnimation_present blank_page_narrator)
  define s2 where "s2 = fire_many 1 s1"
  have s2_eq: "s2 = s1\<lparr>now := 2500, next_tid := 3,
      timers := [\<lparr>tid = 2, due = 5000, period = None, callback = Advance 0\<rparr>,
                 \<lparr>tid = 1, due = 5000, period = Some 2500, callback = Interval_body 0\<rparr>]\<rparr>"
    unfolding s2_def
    by (simp add: fire_next_def s1 run_callback_def interval_body_def loadingMessages_def Let_def)
  define s3 where "s3 = stopLoadingAnimation s2"
  have s3_eq: "s3 = s1\<lparr>now := 2500, next_tid := 3, loadingTimer := None,
      timers := [\<lparr>tid = 2, due = 5000, period = None, callback = Advance 0\<rparr>]\<rparr>"
    unfolding s3_def s2_eq by (simp add: stopLoadingAnimation_def s1)
  define s4 where "s4 = fire_many 1 s3"
  have s4_eq: "s4 = s1\<lparr>now := 5000, next_tid := 3, loadingTimer := None, timers := [],
      currents := [2],
      className := (className s1)(''ls1'' := ''lstep done'', ''ls2'' := ''lstep active'')\<rparr>"
    unfolding s4_def s3_eq
    by (simp add: fire_next_def s1 run_callback_def advance_def set_step_def message_at_def
        set_className_def loadingMessages_def Let_def)
  have c4: "map (className s4) [''ls1'', ''ls2'', ''ls3'', ''ls4'']
      = [''lstep done'', ''lstep active'', ''lstep'', ''lstep'']"
    using s1(7) unfolding s4_eq by simp
  have "timers s3 = [\<lparr>tid = 2, due = 5000, period = None, callback = Advance 0\<rparr>]
     \<and> loadingTimer s3 = None
     \<and> map (className s3) [''ls1'', ''ls2'', ''ls3'', ''ls4''] = [''lstep active'', ''lstep'', ''lstep'', ''lstep'']
     \<and> map (className s4) [''ls1'', ''ls2'', ''ls3'', ''ls4''] = [''lstep done'', ''lstep active'', ''lstep'', ''lstep'']
     \<and> now s4 = 5000"
    using c4 s1(7) unfolding s3_eq s4_eq by simp
  then show ?thesis unfolding s4_def s3_def s2_def s1_def .
qed


section \<open>The run controller: results\<close>

lemma stopLoadingAnimation_keeps:
  "errorMsg_textContent (stopLoadingAnimation d) = errorMsg_textContent d"
  "btnRun_disabled (stopLoadingAnimation d) = btnRun_disabled d"
  "lastReport (stopLoadingAnimation d) = lastReport d"
  "fetches (stopLoadingAnimation d) = fetches d"
  "missing (stopLoadingAnimation d) = missing d"
  "display (stopLoadingAnimation d) = display d"
  "className (stopLoadingAnimation d) = className d"
  by (simp_all add: stopLoadingAnimation_def)

lemma join_contains:
  "e \<in> set xs \<Longrightarrow> \<exists>pre post. join sep xs = pre @ e @ post"
proof (induction sep xs rule: join.induct)
  case (1 sep)
  then show ?case by simp
next
  case (2 sep x)
  then have "join sep [x] = [] @ e @ []" by simp
  then show ?case by blast
next
  case (3 sep x y ys)
  show ?case
  proof (cases "e = x")
    case True
    then have "join sep (x # y # ys) = [] @ e @ (sep @ join sep (y # ys))" by simp
    then show ?thesis by blast
  next
    case False
    with 3 obtain pre post where "join sep (y # ys) = pre @ e @ post" by auto
    then have "join sep (x # y # ys) = (x @ sep @ pre) @ e @ post" by simp
    then show ?thesis by blast
  qed
qed

text \<open>
  Claim C3. When \<open>validate\<close> returns errors, \<^verbatim>\<open>runAnalysis\<close> returns at once, whatever
  the network would answer: the page is the page it found with one more alert, whose text
  holds every error; no request has been recorded, the submit control, the visible region
  (the run state), the timers and the loading steps are as they were.
\<close>

theorem runAnalysis_invalid_form:
  assumes "validate H d \<noteq> []"
  shows "runAnalysis H k t d = Normal (d\<lparr>alerts := alerts d @ [alert_text (validate H d)]\<rparr>)
       \<and> (\<forall>e \<in> set (validate H d). \<exists>pre post. alert_text (validate H d) = pre @ e @ post)
       \<and> fetches (page_of (runAnalysis H k t d)) = fetches d
       \<and> btnRun_disabled (page_of (runAnalysis H k t d)) = btnRun_disabled d
       \<and> runState (page_of (runAnalysis H k t d)) = runState d
       \<and> loadingTimer (page_of (runAnalysis H k t d)) = loadingTimer d
       \<and> timers (page_of (runAnalysis H k t d)) = timers d
       \<and> className (page_of (runAnalysis H k t d)) = className d"
proof -
  have r: "runAnalysis H k t d = Normal (d\<lparr>alerts := alerts d @ [alert_text (validate H d)]\<rparr>)"
    using assms by (simp add: runAnalysis_def runAnalysis_start_def Let_def)
  have "\<exists>pre post. alert_text (validate H d) = pre @ e @ post" if "e \<in> set (validate H d)" for e
  proof -
    from join_contains [OF that] obtain pre post
      where "join ([CHR 0x0A] @ bullet @ '' '') (validate H d) = pre @ e @ post" by blast
    then have "alert_text (validate H d)
        = (''Please fix the following:'' @ [CHR 0x0A, CHR 0x0A] @ bullet @ '' '' @ pre) @ e @ post"
      by (simp add: alert_text_def)
    then show ?thesis by blast
  qed
  then show ?thesis unfolding r by (simp add: runState_def)
qed

theorem runAnalysis_invalid_form_witness:
  "validate sample_host blank_page \<noteq> []
   \<and> runAnalysis sample_host 0 (Response 200 (JObj [(''report'', JStr ''# Title'')])) blank_page
      = Normal (blank_page\<lparr>alerts := [alert_text [name_required, compound_required, pdb_length, webhook_required]]\<rparr>)
   \<and> fetches (page_of (runAnalysis sample_host 0 (Response 200 (JObj [(''report'', JStr ''# Title'')])) blank_page)) = []
   \<and> \<not> btnRun_disabled (page_of (runAnalysis sample_host 0 (Response 200 (JObj [(''report'', JStr ''# Title'')])) blank_page))
   \<and> runState (page_of (runAnalysis sample_host 0 (Response 200 (JObj [(''report'', JStr ''# Title'')])) blank_page)) = Idle"
proof -
  have v: "validate sample_host blank_page = [name_required, compound_required, pdb_length, webhook_required]"
    by code_simp
  then have ne: "validate sample_host blank_page \<noteq> []" by simp
  have i: "alerts blank_page = []" "fetches blank_page = []" "\<not> btnRun_disabled blank_page"
    "runState blank_page = Idle"
    by (simp_all add: blank_page_def runState_def)
  show ?thesis
    using runAnalysis_invalid_form [OF ne, of 0 "Response 200 (JObj [(''report'', JStr ''# Title'')])"] ne i
    unfolding v by (simp add: runState_def blank_page_def)
qed

lemma page_of_finally:
  "errorMsg_textContent (page_of (finally_block c)) = errorMsg_textContent (page_of c)"
  "display (page_of (finally_block c)) = display (page_of c)"
  "btnRun_disabled (page_of (finally_block c)) = False"
  "lastReport (page_of (finally_block c)) = lastReport (page_of c)"
  by (cases c; simp)+

lemma catch_block_message:
  "errorMsg_textContent (page_of (catch_block e d)) = (if message e \<noteq> [] then message e else unknown_error)"
proof -
  define d2 where "d2 = (stopLoadingAnimation d)\<lparr>errorMsg_textContent :=
      (if message e \<noteq> [] then message e else unknown_error)\<rparr>"
  have "errorMsg_textContent (page_of (showOnly ''errorState'' d2)) = errorMsg_textContent d2"
    by (rule showOnly_keeps)
  then show ?thesis
    unfolding catch_block_def Let_def d2_def [symmetric]
    by (cases "showOnly ''errorState'' d2") (simp_all add: setStatus_def d2_def)
qed

lemma catch_block_display:
  assumes "regions \<inter> missing d = {}"
  shows "display (page_of (catch_block e d)) ''loadingState'' = ''none''"
    and "display (page_of (catch_block e d)) ''resultState'' = ''none''"
    and "display (page_of (catch_block e d)) ''errorState'' = ''flex''"
proof -
  define d2 where "d2 = (stopLoadingAnimation d)\<lparr>errorMsg_textContent :=
      (if message e \<noteq> [] then message e else unknown_error)\<rparr>"
  have m: "regions \<inter> missing d2 = {}"
    using assms by (simp add: d2_def stopLoadingAnimation_def)
  show "display (page_of (catch_block e d)) ''loadingState'' = ''none''"
    and "display (page_of (catch_block e d)) ''resultState'' = ''none''"
    and "display (page_of (catch_block e d)) ''errorState'' = ''flex''"
    unfolding catch_block_def Let_def d2_def [symmetric] showOnly_present [OF m]
    by (simp_all add: setStatus_def)
qed

lemma settle_Throw:
  assumes "try_block H payload t d = Throw e d1"
  shows "runAnalysis_settle H payload t d = finally_block (catch_block e d1)"
  using assms by (simp add: runAnalysis_settle_def)

lemma failed_run_state:
  assumes "try_block H payload t d = Throw e d1" and "regions \<inter> missing d1 = {}"
  shows "runState (page_of (runAnalysis_settle H payload t d))
      = Failed (if message e \<noteq> [] then message e else unknown_error)"
  unfolding settle_Throw [OF assms(1)] runState_def
  by (simp add: page_of_finally catch_block_display [OF assms(2)] catch_block_message)

lemma lock_ui_present:
  assumes "missing d = {}"
  shows "lock_ui d = Normal
     (d\<lparr>btnRun_disabled := True, outputActions_display := ''none'',
        display := (display d)
          (''emptyState'' := ''none'', ''loadingState'' := ''flex'',
           ''resultState'' := ''none'', ''errorState'' := ''none''),
        statusLabel_textContent := ''Running'' @ ellipsis,
        statusDot_className := ''status-dot loading'',
        textContent := (textContent d)
          (''ls1'' := ''Fetching PubChem data'' @ ellipsis,
           ''ls2'' := ''Fetching RCSB PDB data'' @ ellipsis,
           ''ls3'' := ''Running 7-step AI analysis'' @ ellipsis,
           ''ls4'' := ''Generating report'' @ ellipsis),
        className := (className d)
          (''ls2'' := ''lstep'', ''ls3'' := ''lstep'', ''ls4'' := ''lstep'', ''ls1'' := ''lstep active''),
        currents := currents d @ [1],
        loadingTimer := Some (next_tid d),
        timers := timers d @
          [\<lparr>tid = next_tid d, due = now d + 2500, period = Some 2500,
            callback = Interval_body (length (currents d))\<rparr>],
        next_tid := Suc (next_tid d)\<rparr>)"
proof -
  have r: "regions \<inter> missing (d\<lparr>btnRun_disabled := True, outputActions_display := ''none''\<rparr>) = {}"
    using assms by simp
  show ?thesis
    unfolding lock_ui_def showOnly_present [OF r]
    using assms by (simp add: setStatus_def startLoadingAnimation_present)
qed

lemma lock_ui_no_first_step:
  assumes "regions \<inter> missing d = {}" and "''ls1'' \<in> missing d"
  shows "lock_ui d = Throw null_className
     (d\<lparr>btnRun_disabled := True, outputActions_display := ''none'',
        display := (display d)
          (''emptyState'' := ''none'', ''loadingState'' := ''flex'',
           ''resultState'' := ''none'', ''errorState'' := ''none''),
        statusLabel_textContent := ''Running'' @ ellipsis,
        statusDot_className := ''status-dot loading''\<rparr>)"
proof -
  have r: "regions \<inter> missing (d\<lparr>btnRun_disabled := True, outputActions_display := ''none''\<rparr>) = {}"
    using assms by simp
  show ?thesis
    unfolding lock_ui_def showOnly_present [OF r]
    using assms(2)
    by (simp add: setStatus_def startLoadingAnimation_def loadingMessages_def reset_step_def
        set_className_def)
qed

lemma lock_ui_disables:
  "btnRun_disabled (page_of (lock_ui d))" "fetches (page_of (lock_ui d)) = fetches d"
proof -
  define d0 where "d0 = d\<lparr>btnRun_disabled := True, outputActions_display := ''none''\<rparr>"
  have s: "btnRun_disabled (page_of (showOnly ''loadingState'' d0))"
    "fetches (page_of (showOnly ''loadingState'' d0)) = fetches d"
    by (simp_all add: showOnly_keeps d0_def)
  have k1: "btnRun_disabled (page_of (startLoadingAnimation d2)) = btnRun_disabled d2" for d2
    by (rule startLoadingAnimation_keeps) simp_all
  have k2: "fetches (page_of (startLoadingAnimation d2)) = fetches d2" for d2
    by (rule startLoadingAnimation_keeps) simp_all
  have l: "lock_ui d = and_then (showOnly ''loadingState'' d0)
       (\<lambda>d1. startLoadingAnimation (setStatus (''Running'' @ ellipsis) ''loading'' d1))"
    by (simp add: lock_ui_def d0_def)
  show "btnRun_disabled (page_of (lock_ui d))"
    using s(1) unfolding l
    by (cases "showOnly ''loadingState'' d0") (simp_all add: k1 setStatus_def)
  show "fetches (page_of (lock_ui d)) = fetches d"
    using s(2) unfolding l
    by (cases "showOnly ''loadingState'' d0") (simp_all add: k2 setStatus_def)
qed

lemma runAnalysis_start_Awaiting:
  assumes "runAnalysis_start H d = Awaiting payload d1"
  shows "validate H d = []" and "buildPayload H d = Inr payload" and "btnRun_disabled d1"
    and "fetches d1 = fetches d @ [(trim (webhookUrl d), to_json payload)]"
proof -
  show v: "validate H d = []"
    using assms by (auto simp: runAnalysis_start_def Let_def split: if_splits)
  show p: "buildPayload H d = Inr payload"
    using assms v by (auto simp: runAnalysis_start_def Let_def split: sum.splits completion.splits)
  from assms v p obtain d0 where d0: "lock_ui d = Normal d0"
    and d1: "d1 = d0\<lparr>fetches := fetches d0 @ [(trim (webhookUrl d), to_json payload)]\<rparr>"
    by (auto simp: runAnalysis_start_def Let_def split: completion.splits)
  show "btnRun_disabled d1"
    using lock_ui_disables(1) [of d] by (simp add: d0 d1)
  show "fetches d1 = fetches d @ [(trim (webhookUrl d), to_json payload)]"
    using lock_ui_disables(2) [of d] by (simp add: d0 d1)
qed

lemma runAnalysis_start_present:
  assumes "validate H d = []" and "missing d = {}"
  shows "\<exists>payload d1. runAnalysis_start H d = Awaiting payload d1
     \<and> missing d1 = {} \<and> lastReport d1 = lastReport d
     \<and> display d1 ''loadingState'' = ''flex''"
proof -
  obtain p where p: "buildPayload H d = Inr p"
    using buildPayload_validated [OF assms(1)] by blast
  show ?thesis
    using assms by (simp add: runAnalysis_start_def Let_def p lock_ui_present)
qed

lemma fire_many_outside:
  "btnRun_disabled (fire_many k d) = btnRun_disabled d"
  "fetches (fire_many k d) = fetches d"
  "display (fire_many k d) = display d"
  "missing (fire_many k d) = missing d"
  "lastReport (fire_many k d) = lastReport d"
  by (rule fire_many_keeps; simp)+

text \<open>
  Claim C7, as the code has it. For a form that validates, in a document that has every
  element the script looks up, the first part of \<^verbatim>\<open>runAnalysis\<close> ends waiting for the
  request, which was issued with the submit control disabled. While the request is
  outstanding, whatever timers fire, the control stays disabled, the run state is
  \<open>Running\<close>, a click on the control starts nothing and no further request is recorded.
  However the request settles, and whatever is thrown in the \<^verbatim>\<open>try\<close> block or in the
  \<^verbatim>\<open>catch\<close> handler, the control is enabled at the end.
\<close>

theorem run_lock_discipline:
  assumes "validate H d = []" and "missing d = {}"
  shows "\<exists>payload d1. runAnalysis_start H d = Awaiting payload d1
     \<and> btnRun_disabled d1
     \<and> fetches d1 = fetches d @ [(trim (webhookUrl d), to_json payload)]
     \<and> (\<forall>k. btnRun_disabled (fire_many k d1) \<and> runState (fire_many k d1) = Running
            \<and> click_btnRun H (fire_many k d1) = None \<and> fetches (fire_many k d1) = fetches d1)
     \<and> (\<forall>k t. \<not> btnRun_disabled (page_of (runAnalysis_settle H payload t (fire_many k d1))))"
proof -
  from runAnalysis_start_present [OF assms] obtain payload d1
    where s: "runAnalysis_start H d = Awaiting payload d1"
      and l: "display d1 ''loadingState'' = ''flex''"
    by blast
  note a = runAnalysis_start_Awaiting [OF s]
  have w: "btnRun_disabled (fire_many k d1) \<and> runState (fire_many k d1) = Running
      \<and> click_btnRun H (fire_many k d1) = None \<and> fetches (fire_many k d1) = fetches d1" for k
    using a(3) l by (simp add: fire_many_outside click_btnRun_def runState_def)
  have e: "\<not> btnRun_disabled (page_of (runAnalysis_settle H payload t (fire_many k d1)))" for k t
    by (simp add: runAnalysis_settle_def page_of_finally)
  from s a(3,4) w e show ?thesis by blast
qed

lemma filled_valid: "validate sample_host filled_page = []"
  by code_simp

lemma filled_present: "missing filled_page = {}"
  by (simp add: filled_page_def blank_page_def)

lemma filled_awaits: "is_awaiting (runAnalysis_start sample_host filled_page)"
  using runAnalysis_start_present [OF filled_valid filled_present] by auto

lemma awaiting_page_facts:
  "missing awaiting_page = {}" "btnRun_disabled awaiting_page"
  using runAnalysis_start_present [OF filled_valid filled_present]
    runAnalysis_start_Awaiting(3) [of sample_host filled_page]
  by (auto simp: awaiting_page_def)

lemma runAnalysis_awaiting:
  assumes "is_awaiting (runAnalysis_start H d)"
  shows "runAnalysis H k t d =
     runAnalysis_settle H (started_payload (runAnalysis_start H d)) t
       (fire_many k (started_page (runAnalysis_start H d)))"
  using assms by (cases "runAnalysis_start H d") (simp_all add: runAnalysis_def)

theorem run_lock_discipline_witness:
  "validate sample_host filled_page = [] \<and> missing filled_page = {}
   \<and> is_awaiting (runAnalysis_start sample_host filled_page)
   \<and> btnRun_disabled awaiting_page
   \<and> click_btnRun sample_host (fire_many 3 awaiting_page) = None
   \<and> \<not> btnRun_disabled (page_of (runAnalysis sample_host 3
         (Fetch_rejects (TypeError ''Failed to fetch'')) filled_page))"
proof -
  from run_lock_discipline [OF filled_valid filled_present] obtain payload d1
    where s: "runAnalysis_start sample_host filled_page = Awaiting payload d1"
      and b: "btnRun_disabled d1"
      and w: "click_btnRun sample_host (fire_many 3 d1) = None"
      and e: "\<not> btnRun_disabled (page_of (runAnalysis_settle sample_host payload
            (Fetch_rejects (TypeError ''Failed to fetch'')) (fire_many 3 d1)))"
    by blast
  have a: "awaiting_page = d1" by (simp add: awaiting_page_def s)
  have r: "runAnalysis sample_host 3 (Fetch_rejects (TypeError ''Failed to fetch'')) filled_page
      = runAnalysis_settle sample_host payload (Fetch_rejects (TypeError ''Failed to fetch'')) (fire_many 3 d1)"
    by (simp add: runAnalysis_def s)
  show ?thesis
    using filled_valid filled_present b w e by (simp add: s a r)
qed

lemma no_steps_valid: "validate sample_host no_steps_page = []"
  using filled_valid by (simp add: no_steps_page_def validate_def)

text \<open>
  Claim C7 as stated also covers exceptions of the lock step. In a document without the
  element \<^verbatim>\<open>ls1\<close> the lock step throws after it has disabled the control and before
  the \<^verbatim>\<open>try\<close> statement is entered: the call ends with the control disabled.
\<close>

theorem lock_step_exception_counterexample:
  "validate sample_host no_steps_page = []
   \<and> is_unhandled (runAnalysis_start sample_host no_steps_page)
   \<and> btnRun_disabled (started_page (runAnalysis_start sample_host no_steps_page))
   \<and> btnRun_disabled (page_of (runAnalysis sample_host 0 (Response 200 (JObj [])) no_steps_page))"
proof -
  obtain p where p: "buildPayload sample_host no_steps_page = Inr p"
    using buildPayload_validated [OF no_steps_valid] by blast
  have m: "regions \<inter> missing no_steps_page = {}" "''ls1'' \<in> missing no_steps_page"
    by (simp_all add: no_steps_page_def regions_def)
  have s: "runAnalysis_start sample_host no_steps_page
      = Unhandled null_className (page_of (lock_ui no_steps_page))"
    by (simp add: runAnalysis_start_def Let_def no_steps_valid p lock_ui_no_first_step [OF m])
  show ?thesis
    using no_steps_valid by (simp add: s runAnalysis_def lock_ui_disables)
qed

lemma try_block_failure:
  assumes "get_prop data ''message'' = Inr m" and "get_prop data ''error'' = Inr er"
    and "\<not> ok status \<or> get_prop data ''status'' = Inr (JStr ''error'')"
  shows "try_block H payload (Response status data) d =
     Throw (Error (if truthy m then js_to_string m
                   else if truthy er then js_to_string er
                   else ''HTTP '' @ show_nat status))
       (stopLoadingAnimation d)"
proof -
  have s: "signals_failure status data = Inr True"
    using assms(3) by (auto simp: signals_failure_def)
  have f: "failure_message status data =
      Inr (if truthy m then m else if truthy er then er else JStr (''HTTP '' @ show_nat status))"
    by (simp add: failure_message_def assms(1,2))
  show ?thesis
    by (simp add: try_block_def Let_def s f)
qed

text \<open>
  Claim C4, as the code has it. When a response arrives whose body has been parsed (and
  is not \<^verbatim>\<open>null\<close>), and the status is not a success or the body's status is
  \<^verbatim>\<open>error\<close>, the text of the error region is the body's message if that is truthy,
  else the body's error if that is truthy, else \<^verbatim>\<open>HTTP\<close> and the status. When
  \<^verbatim>\<open>fetch\<close> or \<^verbatim>\<open>res.json()\<close> rejects, whatever the status, the text is the message of
  the error they reject with. An empty text is replaced by a fixed one. With the regions
  present the run state is \<open>Failed\<close> with that text.
\<close>

theorem failed_run_message:
  "(get_prop data ''message'' = Inr m \<and> get_prop data ''error'' = Inr er
      \<and> (\<not> ok status \<or> get_prop data ''status'' = Inr (JStr ''error''))
      \<and> msg = (if truthy m then js_to_string m
                else if truthy er then js_to_string er
                else ''HTTP '' @ show_nat status) \<longrightarrow>
      errorMsg_textContent (page_of (runAnalysis_settle H payload (Response status data) d))
        = (if msg \<noteq> [] then msg else unknown_error)
      \<and> (regions \<inter> missing d = {} \<longrightarrow>
           runState (page_of (runAnalysis_settle H payload (Response status data) d))
             = Failed (if msg \<noteq> [] then msg else unknown_error)))
   \<and> errorMsg_textContent (page_of (runAnalysis_settle H payload (Fetch_rejects e) d))
        = (if message e \<noteq> [] then message e else unknown_error)
   \<and> errorMsg_textContent (page_of (runAnalysis_settle H payload (Json_rejects status e) d))
        = (if message e \<noteq> [] then message e else unknown_error)
   \<and> (regions \<inter> missing d = {} \<longrightarrow>
        runState (page_of (runAnalysis_settle H payload (Fetch_rejects e) d))
          = Failed (if message e \<noteq> [] then message e else unknown_error)
        \<and> runState (page_of (runAnalysis_settle H payload (Json_rejects status e) d))
          = Failed (if message e \<noteq> [] then message e else unknown_error))"
proof -
  have body: "errorMsg_textContent (page_of (runAnalysis_settle H payload (Response status data) d))
        = (if msg \<noteq> [] then msg else unknown_error)
      \<and> (regions \<inter> missing d = {} \<longrightarrow>
           runState (page_of (runAnalysis_settle H payload (Response status data) d))
             = Failed (if msg \<noteq> [] then msg else unknown_error))"
    if a: "get_prop data ''message'' = Inr m" "get_prop data ''error'' = Inr er"
      "\<not> ok status \<or> get_prop data ''status'' = Inr (JStr ''error'')"
      and msg: "msg = (if truthy m then js_to_string m
                else if truthy er then js_to_string er
                else ''HTTP '' @ show_nat status)"
  proof -
    have t: "try_block H payload (Response status data) d = Throw (Error msg) (stopLoadingAnimation d)"
      unfolding msg by (rule try_block_failure [OF a])
    have 1: "errorMsg_textContent (page_of (runAnalysis_settle H payload (Response status data) d))
        = (if msg \<noteq> [] then msg else unknown_error)"
      unfolding settle_Throw [OF t] by (simp add: page_of_finally catch_block_message)
    have 2: "runState (page_of (runAnalysis_settle H payload (Response status data) d))
             = Failed (if msg \<noteq> [] then msg else unknown_error)"
      if "regions \<inter> missing d = {}"
      using failed_run_state [OF t] that by (simp add: stopLoadingAnimation_keeps)
    from 1 2 show ?thesis by blast
  qed
  have tf: "try_block H payload (Fetch_rejects e) d = Throw e d"
    and tj: "try_block H payload (Json_rejects status e) d = Throw e d"
    by (simp_all add: try_block_def)
  have f1: "errorMsg_textContent (page_of (runAnalysis_settle H payload (Fetch_rejects e) d))
        = (if message e \<noteq> [] then message e else unknown_error)"
    unfolding settle_Throw [OF tf] by (simp add: page_of_finally catch_block_message)
  have j1: "errorMsg_textContent (page_of (runAnalysis_settle H payload (Json_rejects status e) d))
        = (if message e \<noteq> [] then message e else unknown_error)"
    unfolding settle_Throw [OF tj] by (simp add: page_of_finally catch_block_message)
  have f2: "runState (page_of (runAnalysis_settle H payload (Fetch_rejects e) d))
          = Failed (if message e \<noteq> [] then message e else unknown_error)"
    if "regions \<inter> missing d = {}"
    using failed_run_state [OF tf that] .
  have j2: "runState (page_of (runAnalysis_settle H payload (Json_rejects status e) d))
          = Failed (if message e \<noteq> [] then message e else unknown_error)"
    if "regions \<inter> missing d = {}"
    using failed_run_state [OF tj that] .
  from body f1 j1 f2 j2 show ?thesis by blast
qed

theorem failed_run_message_witness:
  "runState (page_of (runAnalysis sample_host 0
      (Response 200 (JObj [(''status'', JStr ''error''), (''message'', JStr ''bad pdb'')])) filled_page))
     = Failed ''bad pdb''
   \<and> runState (page_of (runAnalysis sample_host 0
      (Response 500 (JObj [(''error'', JStr ''boom'')])) filled_page))
     = Failed ''boom''
   \<and> runState (page_of (runAnalysis sample_host 0 (Response 503 (JObj [])) filled_page))
     = Failed ''HTTP 503''
   \<and> runState (page_of (runAnalysis sample_host 0 (Fetch_rejects (TypeError ''Failed to fetch'')) filled_page))
     = Failed ''Failed to fetch''"
proof -
  note r = runAnalysis_awaiting [OF filled_awaits, of 0, folded awaiting_page_def, simplified]
  have p: "regions \<inter> missing awaiting_page = {}" by (simp add: awaiting_page_facts)
  have g1: "get_prop (JObj [(''status'', JStr ''error''), (''message'', JStr ''bad pdb'')]) ''message'' = Inr (JStr ''bad pdb'')"
    "get_prop (JObj [(''status'', JStr ''error''), (''message'', JStr ''bad pdb'')]) ''error'' = Inr JUndefined"
    "get_prop (JObj [(''status'', JStr ''error''), (''message'', JStr ''bad pdb'')]) ''status'' = Inr (JStr ''error'')"
    by simp_all
  have g2: "get_prop (JObj [(''error'', JStr ''boom'')]) ''message'' = Inr JUndefined"
    "get_prop (JObj [(''error'', JStr ''boom'')]) ''error'' = Inr (JStr ''boom'')"
    "\<not> ok 500"
    by (simp_all add: ok_def)
  have g3: "get_prop (JObj []) ''message'' = Inr JUndefined"
    "get_prop (JObj []) ''error'' = Inr JUndefined" "\<not> ok 503"
    "''HTTP '' @ show_nat 503 = ''HTTP 503''"
    by code_simp+
  have 1: "runState (page_of (runAnalysis_settle sample_host
        (started_payload (runAnalysis_start sample_host filled_page))
        (Response 200 (JObj [(''status'', JStr ''error''), (''message'', JStr ''bad pdb'')])) awaiting_page))
     = Failed ''bad pdb''"
    using failed_run_message [of "JObj [(''status'', JStr ''error''), (''message'', JStr ''bad pdb'')]"
        "JStr ''bad pdb''" JUndefined 200 "''bad pdb''" sample_host
        "started_payload (runAnalysis_start sample_host filled_page)" awaiting_page] g1 p
    by simp
  have 2: "runState (page_of (runAnalysis_settle sample_host
        (started_payload (runAnalysis_start sample_host filled_page))
        (Response 500 (JObj [(''error'', JStr ''boom'')])) awaiting_page))
     = Failed ''boom''"
    using failed_run_message [of "JObj [(''error'', JStr ''boom'')]"
        JUndefined "JStr ''boom''" 500 "''boom''" sample_host
        "started_payload (runAnalysis_start sample_host filled_page)" awaiting_page] g2 p
    by simp
  have 3: "runState (page_of (runAnalysis_settle sample_host
        (started_payload (runAnalysis_start sample_host filled_page))
        (Response 503 (JObj [])) awaiting_page))
     = Failed ''HTTP 503''"
    using failed_run_message [of "JObj []" JUndefined JUndefined 503 "''HTTP 503''" sample_host
        "started_payload (runAnalysis_start sample_host filled_page)" awaiting_page] g3 p
    by simp
  have 4: "runState (page_of (runAnalysis_settle sample_host
        (started_payload (runAnalysis_start sample_host filled_page))
        (Fetch_rejects (TypeError ''Failed to fetch'')) awaiting_page))
     = Failed ''Failed to fetch''"
    using failed_run_message [where H = sample_host
        and payload = "started_payload (runAnalysis_start sample_host filled_page)"
        and e = "TypeError ''Failed to fetch''" and d = awaiting_page] p
    by simp
  from 1 2 3 4 show ?thesis unfolding r by blast
qed

text \<open>
  Claim C4 as stated fails for a failure of the transport: a response with status 502
  whose body is not JSON ends as failed with the parser's message, not with
  \<^verbatim>\<open>HTTP 502\<close>, and a rejected \<^verbatim>\<open>fetch\<close> ends with the network error's message.
\<close>

theorem transport_failure_message_counterexample:
  "runState (page_of (runAnalysis sample_host 0
      (Json_rejects 502 (SyntaxError ''Unexpected token < in JSON at position 0'')) filled_page))
     = Failed ''Unexpected token < in JSON at position 0''
   \<and> ''Unexpected token < in JSON at position 0'' \<noteq> ''HTTP '' @ show_nat 502
   \<and> runState (page_of (runAnalysis sample_host 0 (Fetch_rejects (TypeError ''Failed to fetch'')) filled_page))
     = Failed ''Failed to fetch''"
proof -
  note r = runAnalysis_awaiting [OF filled_awaits, of 0, folded awaiting_page_def, simplified]
  have p: "regions \<inter> missing awaiting_page = {}" by (simp add: awaiting_page_facts)
  have tj: "try_block H payload (Json_rejects st e) d = Throw e d" for H payload st e d
    by (simp add: try_block_def)
  have tf: "try_block H payload (Fetch_rejects e) d = Throw e d" for H payload e d
    by (simp add: try_block_def)
  show ?thesis
    unfolding r by (simp add: failed_run_state [OF tj p] failed_run_state [OF tf p])
qed

lemma get_prop_truthy: "truthy v \<Longrightarrow> \<exists>x. get_prop v k = Inr x"
  by (cases v) auto

lemma meta_items_objects: "\<exists>items. meta_items H (JObj kvs) (JObj ps) = Inr items"
proof -
  obtain m where m: "get_prop (JObj kvs) ''meta'' = Inr m" by simp
  define meta where "meta = js_or m (JObj [])"
  have t: "truthy meta" by (simp add: meta_def js_or_def)
  obtain cq where cq: "get_prop meta ''compound_queried'' = Inr cq"
    using get_prop_truthy [OF t] by blast
  obtain pq where pq: "get_prop meta ''pdb_id_queried'' = Inr pq"
    using get_prop_truthy [OF t] by blast
  obtain mu where mu: "get_prop meta ''model_used'' = Inr mu"
    using get_prop_truthy [OF t] by blast
  obtain tu where tu: "get_prop meta ''tokens_used'' = Inr tu"
    using get_prop_truthy [OF t] by blast
  obtain tt where tt: "(if truthy tu then get_prop tu ''total_tokens'' else Inr JUndefined) = Inr tt"
    using get_prop_truthy [of tu "''total_tokens''"] by (cases "truthy tu") auto
  show ?thesis
    unfolding meta_items_def
    by (simp add: m Let_def meta_def [symmetric] cq pq mu tu tt del: get_prop.simps)
      (simp)
qed

lemma on_success_unrenderable:
  assumes "get_prop data ''report'' = Inr r" and "truthy r" and "renderMarkdown r = Inl e"
    and "meta_items H data payload = Inr items"
  shows "on_success H data payload d =
     Throw e (d\<lparr>lastReport := r, resultMeta_items := items, resultBody := No_content\<rparr>)"
  by (simp add: on_success_def renderResult_def Let_def assms)

lemma catch_block_lastReport: "lastReport (page_of (catch_block e d)) = lastReport d"
proof -
  define d2 where "d2 = (stopLoadingAnimation d)\<lparr>errorMsg_textContent :=
      (if message e \<noteq> [] then message e else unknown_error)\<rparr>"
  have "lastReport (page_of (showOnly ''errorState'' d2)) = lastReport d2"
    by (rule showOnly_keeps)
  then show ?thesis
    unfolding catch_block_def Let_def d2_def [symmetric]
    by (cases "showOnly ''errorState'' d2") (simp_all add: setStatus_def d2_def stopLoadingAnimation_def)
qed

lemma validate_formState:
  "formState d = formState d' \<Longrightarrow> validate H d = validate H d'"
  by (simp add: formState_def validate_def)

lemma buildPayload_formState:
  "formState d = formState d' \<Longrightarrow> buildPayload H d = buildPayload H d'"
  by (simp add: formState_def buildPayload_def)

lemma showOnly_keeps_any:
  assumes "\<And>d f. g (d\<lparr>display := f\<rparr>) = g d"
  shows "g (page_of (showOnly i d)) = g d"
  using showOnly_frame [of i d] assms by auto

lemma renderResult_keeps:
  assumes "\<And>d a. g (d\<lparr>resultMeta_items := a\<rparr>) = g d" and "\<And>d a. g (d\<lparr>resultBody := a\<rparr>) = g d"
  shows "g (page_of (renderResult H data payload d)) = g d"
  by (auto simp: renderResult_def Let_def assms split: sum.splits)

lemma on_success_keeps:
  assumes "\<And>d a. g (d\<lparr>resultMeta_items := a\<rparr>) = g d" and "\<And>d a. g (d\<lparr>resultBody := a\<rparr>) = g d"
    and "\<And>d a. g (d\<lparr>lastReport := a\<rparr>) = g d" and "\<And>d a. g (d\<lparr>display := a\<rparr>) = g d"
    and "\<And>d a. g (d\<lparr>outputActions_display := a\<rparr>) = g d"
    and "\<And>d a. g (d\<lparr>statusLabel_textContent := a\<rparr>) = g d"
    and "\<And>d a. g (d\<lparr>statusDot_className := a\<rparr>) = g d"
  shows "g (page_of (on_success H data payload d)) = g d"
proof (cases "get_prop data ''report''")
  case (Inl e)
  then show ?thesis by (simp add: on_success_def)
next
  case (Inr report)
  define d1 where "d1 = d\<lparr>lastReport := (if truthy report then report else JStr (JSON_stringify H data))\<rparr>"
  have r: "g (page_of (renderResult H data payload d1)) = g d"
    using renderResult_keeps [of g H data payload d1] assms(1,2,3) by (simp add: d1_def)
  have s: "g (page_of (showOnly ''resultState'' d2)) = g d2" for d2
    by (rule showOnly_keeps_any) (rule assms(4))
  have o: "on_success H data payload d = and_then (renderResult H data payload d1)
      (\<lambda>d2. and_then (showOnly ''resultState'' d2)
         (\<lambda>d3. Normal (setStatus ''Complete'' [] (d3\<lparr>outputActions_display := ''flex''\<rparr>))))"
    by (simp add: on_success_def Inr Let_def d1_def)
  show ?thesis
  proof (cases "renderResult H data payload d1")
    case (Throw e d2)
    then show ?thesis using r by (simp add: o)
  next
    case (Normal d2)
    then have d2: "g d2 = g d" using r by simp
    show ?thesis
      using s [of d2] d2
      by (cases "showOnly ''resultState'' d2") (simp_all add: o Normal setStatus_def assms(5,6,7))
  qed
qed

lemma stopLoadingAnimation_keeps_any:
  assumes "\<And>d a. g (d\<lparr>timers := a\<rparr>) = g d" and "\<And>d a. g (d\<lparr>loadingTimer := a\<rparr>) = g d"
  shows "g (stopLoadingAnimation d) = g d"
  by (simp add: stopLoadingAnimation_def assms)

lemma try_block_keeps:
  assumes "\<And>d a. g (d\<lparr>resultMeta_items := a\<rparr>) = g d" and "\<And>d a. g (d\<lparr>resultBody := a\<rparr>) = g d"
    and "\<And>d a. g (d\<lparr>lastReport := a\<rparr>) = g d" and "\<And>d a. g (d\<lparr>display := a\<rparr>) = g d"
    and "\<And>d a. g (d\<lparr>outputActions_display := a\<rparr>) = g d"
    and "\<And>d a. g (d\<lparr>statusLabel_textContent := a\<rparr>) = g d"
    and "\<And>d a. g (d\<lparr>statusDot_className := a\<rparr>) = g d"
    and "\<And>d a. g (d\<lparr>timers := a\<rparr>) = g d" and "\<And>d a. g (d\<lparr>loadingTimer := a\<rparr>) = g d"
  shows "g (page_of (try_block H payload t d)) = g d"
proof (cases t)
  case (Fetch_rejects e)
  then show ?thesis by (simp add: try_block_def)
next
  case (Json_rejects status e)
  then show ?thesis by (simp add: try_block_def)
next
  case (Response status data)
  have st: "g (stopLoadingAnimation d) = g d"
    by (rule stopLoadingAnimation_keeps_any) (rule assms(8), rule assms(9))
  have os: "g (page_of (on_success H data payload (stopLoadingAnimation d))) = g d"
    using on_success_keeps [of g H data payload "stopLoadingAnimation d"] assms(1-7) st by simp
  show ?thesis
    using st os
    by (auto simp: try_block_def Response Let_def split: sum.splits bool.splits)
qed

lemma catch_block_keeps:
  assumes "\<And>d a. g (d\<lparr>errorMsg_textContent := a\<rparr>) = g d" and "\<And>d a. g (d\<lparr>display := a\<rparr>) = g d"
    and "\<And>d a. g (d\<lparr>console_errors := a\<rparr>) = g d"
    and "\<And>d a. g (d\<lparr>statusLabel_textContent := a\<rparr>) = g d"
    and "\<And>d a. g (d\<lparr>statusDot_className := a\<rparr>) = g d"
    and "\<And>d a. g (d\<lparr>timers := a\<rparr>) = g d" and "\<And>d a. g (d\<lparr>loadingTimer := a\<rparr>) = g d"
  shows "g (page_of (catch_block e d)) = g d"
proof -
  define d2 where "d2 = (stopLoadingAnimation d)\<lparr>errorMsg_textContent :=
      (if message e \<noteq> [] then message e else unknown_error)\<rparr>"
  have st: "g (stopLoadingAnimation d) = g d"
    by (rule stopLoadingAnimation_keeps_any) (rule assms(6), rule assms(7))
  have d2: "g d2 = g d" by (simp add: d2_def assms(1) st)
  have s: "g (page_of (showOnly ''errorState'' d2)) = g d2"
    by (rule showOnly_keeps_any) (rule assms(2))
  show ?thesis
    unfolding catch_block_def Let_def d2_def [symmetric] using s d2
    by (cases "showOnly ''errorState'' d2") (simp_all add: setStatus_def assms(3,4,5))
qed

lemma runAnalysis_settle_form:
  "formState (page_of (runAnalysis_settle H payload t d)) = formState d"
  "missing (page_of (runAnalysis_settle H payload t d)) = missing d"
proof -
  have t1: "formState (page_of (try_block H payload t d)) = formState d"
    by (rule try_block_keeps) (simp_all add: formState_def)
  have t2: "missing (page_of (try_block H payload t d)) = missing d"
    by (rule try_block_keeps) simp_all
  have c1: "formState (page_of (catch_block e d0)) = formState d0" for e d0
    by (rule catch_block_keeps) (simp_all add: formState_def)
  have c2: "missing (page_of (catch_block e d0)) = missing d0" for e d0
    by (rule catch_block_keeps) simp_all
  have f1: "formState (page_of (finally_block c)) = formState (page_of c)" for c
    by (cases c) (simp_all add: formState_def)
  have f2: "missing (page_of (finally_block c)) = missing (page_of c)" for c
    by (cases c) simp_all
  show "formState (page_of (runAnalysis_settle H payload t d)) = formState d"
  proof (cases "try_block H payload t d")
    case (Normal d1)
    then show ?thesis
      using t1 f1 [of "Normal d1"] by (simp add: runAnalysis_settle_def del: finally_block.simps)
  next
    case (Throw e d1)
    then show ?thesis
      using t1 c1 [of e d1] f1 [of "catch_block e d1"] by (simp add: runAnalysis_settle_def)
  qed
  show "missing (page_of (runAnalysis_settle H payload t d)) = missing d"
  proof (cases "try_block H payload t d")
    case (Normal d1)
    then show ?thesis
      using t2 f2 [of "Normal d1"] by (simp add: runAnalysis_settle_def del: finally_block.simps)
  next
    case (Throw e d1)
    then show ?thesis
      using t2 c2 [of e d1] f2 [of "catch_block e d1"] by (simp add: runAnalysis_settle_def)
  qed
qed

lemma lock_ui_form:
  "formState (page_of (lock_ui d)) = formState d"
  "missing (page_of (lock_ui d)) = missing d"
proof -
  define d0 where "d0 = d\<lparr>btnRun_disabled := True, outputActions_display := ''none''\<rparr>"
  have l: "lock_ui d = and_then (showOnly ''loadingState'' d0)
       (\<lambda>d1. startLoadingAnimation (setStatus (''Running'' @ ellipsis) ''loading'' d1))"
    by (simp add: lock_ui_def d0_def)
  have s1: "formState (page_of (showOnly ''loadingState'' d0)) = formState d"
    using showOnly_keeps_any [of formState "''loadingState''" d0] by (simp add: formState_def d0_def)
  have s2: "missing (page_of (showOnly ''loadingState'' d0)) = missing d"
    by (simp add: showOnly_keeps d0_def)
  have k1: "formState (page_of (startLoadingAnimation d2)) = formState d2" for d2
    by (rule startLoadingAnimation_keeps) (simp_all add: formState_def)
  have k2: "missing (page_of (startLoadingAnimation d2)) = missing d2" for d2
    by (rule startLoadingAnimation_keeps) simp_all
  show "formState (page_of (lock_ui d)) = formState d"
    using s1 unfolding l
    by (cases "showOnly ''loadingState'' d0") (simp_all add: k1, simp add: setStatus_def formState_def)
  show "missing (page_of (lock_ui d)) = missing d"
    using s2 unfolding l
    by (cases "showOnly ''loadingState'' d0") (simp_all add: k2 setStatus_def)
qed

lemma runAnalysis_start_form:
  "formState (started_page (runAnalysis_start H d)) = formState d"
  "missing (started_page (runAnalysis_start H d)) = missing d"
proof -
  have "formState (started_page (runAnalysis_start H d)) = formState d
      \<and> missing (started_page (runAnalysis_start H d)) = missing d"
  proof (cases "validate H d = []")
    case False
    then show ?thesis by (simp add: runAnalysis_start_def Let_def formState_def)
  next
    case True
    show ?thesis
    proof (cases "buildPayload H d")
      case (Inl e)
      then show ?thesis using True by (simp add: runAnalysis_start_def Let_def)
    next
      case (Inr payload)
      show ?thesis
      proof (cases "lock_ui d")
        case (Normal d1)
        then have "formState d1 = formState d" "missing d1 = missing d"
          using lock_ui_form [of d] by simp_all
        then show ?thesis
          using True Inr Normal by (simp add: runAnalysis_start_def Let_def formState_def)
      next
        case (Throw e d1)
        then have "formState d1 = formState d" "missing d1 = missing d"
          using lock_ui_form [of d] by simp_all
        then show ?thesis
          using True Inr Throw by (simp add: runAnalysis_start_def Let_def)
      qed
    qed
  qed
  then show "formState (started_page (runAnalysis_start H d)) = formState d"
    and "missing (started_page (runAnalysis_start H d)) = missing d"
    by simp_all
qed

lemma fire_many_form:
  "formState (fire_many k d) = formState d"
  by (rule fire_many_keeps) (simp_all add: formState_def)

text \<open>
  A run changes neither the values of the input fields nor the document's elements,
  however it ends.
\<close>

lemma runAnalysis_form:
  "formState (page_of (runAnalysis H k t d)) = formState d
   \<and> missing (page_of (runAnalysis H k t d)) = missing d"
proof (cases "runAnalysis_start H d")
  case (Returned d1)
  then show ?thesis
    using runAnalysis_start_form [of H d] by (simp add: runAnalysis_def)
next
  case (Unhandled e d1)
  then show ?thesis
    using runAnalysis_start_form [of H d] by (simp add: runAnalysis_def)
next
  case (Awaiting payload d1)
  then show ?thesis
    using runAnalysis_start_form [of H d]
    by (simp add: runAnalysis_def runAnalysis_settle_form fire_many_form fire_many_outside)
qed

lemma on_success_rendered:
  assumes "get_prop data ''report'' = Inr (JStr txt)" and "txt \<noteq> []"
    and "meta_items H data payload = Inr items" and "regions \<inter> missing d = {}"
  shows "\<exists>d'. on_success H data payload d = Normal d' \<and> lastReport d' = JStr txt
     \<and> display d' ''loadingState'' = ''none'' \<and> display d' ''resultState'' = ''block''"
proof -
  define d2 where "d2 = d\<lparr>lastReport := JStr txt, resultMeta_items := items,
      resultBody := Child_html (markdown_html txt)\<rparr>"
  have r: "renderResult H data payload (d\<lparr>lastReport := JStr txt\<rparr>) = Normal d2"
    by (simp add: renderResult_def Let_def assms(1,2,3) renderMarkdown_def d2_def)
  have m: "regions \<inter> missing d2 = {}" using assms(4) by (simp add: d2_def)
  have lr: "lastReport d2 = JStr txt" by (simp add: d2_def)
  have os: "on_success H data payload d = and_then (showOnly ''resultState'' d2)
      (\<lambda>d3. Normal (setStatus ''Complete'' [] (d3\<lparr>outputActions_display := ''flex''\<rparr>)))"
    by (simp add: on_success_def Let_def assms(1,2) r)
  show ?thesis
    unfolding os showOnly_present [OF m] by (simp add: setStatus_def lr)
qed

lemma accepted_response:
  assumes "ok status" and "get_prop data ''status'' = Inr s" and "s \<noteq> JStr ''error''"
  shows "try_block H payload (Response status data) d
     = on_success H data payload (stopLoadingAnimation d)"
  using assms by (simp add: try_block_def Let_def signals_failure_def)

lemma rendered_report_run:
  assumes "validate H d = []" and "missing d = {}"
    and "ok status" and "get_prop (JObj kvs) ''status'' = Inr s" and "s \<noteq> JStr ''error''"
    and "get_prop (JObj kvs) ''report'' = Inr (JStr txt)" and "txt \<noteq> []"
  shows "runState (page_of (runAnalysis H k (Response status (JObj kvs)) d)) = Succeeded"
    and "lastReport (page_of (runAnalysis H k (Response status (JObj kvs)) d)) = JStr txt"
proof -
  from runAnalysis_start_present [OF assms(1,2)] obtain payload d1
    where s: "runAnalysis_start H d = Awaiting payload d1" and m1: "missing d1 = {}"
    by blast
  obtain ps where ps: "payload = JObj ps"
    using buildPayload_Inr [OF runAnalysis_start_Awaiting(2) [OF s]] by blast
  obtain items where items: "meta_items H (JObj kvs) payload = Inr items"
    unfolding ps using meta_items_objects by blast
  define d2 where "d2 = stopLoadingAnimation (fire_many k d1)"
  have m2: "regions \<inter> missing d2 = {}"
    by (simp add: d2_def stopLoadingAnimation_keeps fire_many_outside m1)
  from on_success_rendered [OF assms(6,7) items m2] obtain d3
    where d3: "on_success H (JObj kvs) payload d2 = Normal d3" "lastReport d3 = JStr txt"
      "display d3 ''loadingState'' = ''none''" "display d3 ''resultState'' = ''block''"
    by blast
  have t: "try_block H payload (Response status (JObj kvs)) (fire_many k d1) = Normal d3"
    unfolding accepted_response [OF assms(3,4,5)] d2_def [symmetric] by (rule d3(1))
  have r: "runAnalysis H k (Response status (JObj kvs)) d = Normal (d3\<lparr>btnRun_disabled := False\<rparr>)"
    by (simp add: runAnalysis_def s runAnalysis_settle_def t)
  show "runState (page_of (runAnalysis H k (Response status (JObj kvs)) d)) = Succeeded"
    by (simp add: r runState_def d3)
  show "lastReport (page_of (runAnalysis H k (Response status (JObj kvs)) d)) = JStr txt"
    by (simp add: r d3)
qed

lemma unrenderable_report_run:
  assumes "validate H d = []" and "missing d = {}"
    and "ok status" and "get_prop (JObj kvs) ''status'' = Inr s" and "s \<noteq> JStr ''error''"
    and "get_prop (JObj kvs) ''report'' = Inr r" and "truthy r" and "renderMarkdown r = Inl e"
  shows "runState (page_of (runAnalysis H k (Response status (JObj kvs)) d))
      = Failed (if message e \<noteq> [] then message e else unknown_error)"
    and "lastReport (page_of (runAnalysis H k (Response status (JObj kvs)) d)) = r"
proof -
  from runAnalysis_start_present [OF assms(1,2)] obtain payload d1
    where s: "runAnalysis_start H d = Awaiting payload d1" and m1: "missing d1 = {}"
    by blast
  obtain ps where ps: "payload = JObj ps"
    using buildPayload_Inr [OF runAnalysis_start_Awaiting(2) [OF s]] by blast
  obtain items where items: "meta_items H (JObj kvs) payload = Inr items"
    unfolding ps using meta_items_objects by blast
  define d2 where "d2 = (stopLoadingAnimation (fire_many k d1))\<lparr>lastReport := r,
      resultMeta_items := items, resultBody := No_content\<rparr>"
  have t: "try_block H payload (Response status (JObj kvs)) (fire_many k d1) = Throw e d2"
    unfolding accepted_response [OF assms(3,4,5)] d2_def
    by (rule on_success_unrenderable [OF assms(6,7,8) items])
  have m2: "regions \<inter> missing d2 = {}"
    by (simp add: d2_def stopLoadingAnimation_keeps fire_many_outside m1)
  have r: "runAnalysis H k (Response status (JObj kvs)) d
      = runAnalysis_settle H payload (Response status (JObj kvs)) (fire_many k d1)"
    by (simp add: runAnalysis_def s)
  show "runState (page_of (runAnalysis H k (Response status (JObj kvs)) d))
      = Failed (if message e \<noteq> [] then message e else unknown_error)"
    unfolding r by (rule failed_run_state [OF t m2])
  show "lastReport (page_of (runAnalysis H k (Response status (JObj kvs)) d)) = r"
    unfolding r settle_Throw [OF t]
    by (simp add: page_of_finally catch_block_lastReport d2_def)
qed

text \<open>
  Claim C10, evaluated on two runs from the filled page. The first response has status
  200 and the body \<^verbatim>\<open>{"report": "# First report"}\<close>: the run succeeds and that report
  is stored. The second has status 200 and the body \<^verbatim>\<open>{"report": 42}\<close>. The report is
  truthy, so it is stored as the last report; then \<^verbatim>\<open>renderMarkdown\<close> throws, a number
  having no \<^verbatim>\<open>replace\<close>, and the run ends as failed. The store now holds 42, and that is
  what \<^verbatim>\<open>copyReport\<close> puts on the clipboard and \<^verbatim>\<open>downloadReport\<close> into the file.
\<close>

theorem failed_run_overwrites_lastReport:
  "runState first_run_page = Succeeded
   \<and> lastReport first_run_page = JStr ''# First report''
   \<and> runState (page_of (runAnalysis sample_host 0 (Response 200 (JObj [(''report'', JNum 42)])) first_run_page))
       = Failed ''text.replace is not a function''
   \<and> lastReport (page_of (runAnalysis sample_host 0 (Response 200 (JObj [(''report'', JNum 42)])) first_run_page))
       = JNum 42
   \<and> clipboard (copyReport (page_of (runAnalysis sample_host 0
         (Response 200 (JObj [(''report'', JNum 42)])) first_run_page)))
       = clipboard (page_of (runAnalysis sample_host 0
         (Response 200 (JObj [(''report'', JNum 42)])) first_run_page)) @ [JNum 42]
   \<and> downloads (downloadReport (page_of (runAnalysis sample_host 0
         (Response 200 (JObj [(''report'', JNum 42)])) first_run_page)))
       = downloads (page_of (runAnalysis sample_host 0
         (Response 200 (JObj [(''report'', JNum 42)])) first_run_page))
         @ [(''ibuprofen_vs_cox_2.md'', JNum 42)]"
proof -
  have o: "ok 200" by (simp add: ok_def)
  have g1: "get_prop (JObj [(''report'', JStr ''# First report'')]) ''status'' = Inr JUndefined"
    "get_prop (JObj [(''report'', JStr ''# First report'')]) ''report'' = Inr (JStr ''# First report'')"
    by simp_all
  have g2: "get_prop (JObj [(''report'', JNum 42)]) ''status'' = Inr JUndefined"
    "get_prop (JObj [(''report'', JNum 42)]) ''report'' = Inr (JNum 42)"
    "renderMarkdown (JNum 42) = Inl (TypeError ''text.replace is not a function'')"
    by (simp_all add: renderMarkdown_def)
  have 1: "runState first_run_page = Succeeded"
    unfolding first_run_page_def
    by (rule rendered_report_run(1) [OF filled_valid filled_present o g1(1) _ g1(2)]) simp_all
  have 2: "lastReport first_run_page = JStr ''# First report''"
    unfolding first_run_page_def
    by (rule rendered_report_run(2) [OF filled_valid filled_present o g1(1) _ g1(2)]) simp_all
  have f: "formState first_run_page = formState filled_page" "missing first_run_page = {}"
    unfolding first_run_page_def using runAnalysis_form [of sample_host 0 _ filled_page]
    by (simp_all add: filled_present)
  have v: "validate sample_host first_run_page = []"
    using validate_formState [OF f(1)] filled_valid by simp
  have 3: "runState (page_of (runAnalysis sample_host 0 (Response 200 (JObj [(''report'', JNum 42)])) first_run_page))
       = Failed ''text.replace is not a function''"
    using unrenderable_report_run(1) [OF v f(2) o g2(1) _ g2(2) _ g2(3), of 0] by simp
  have 4: "lastReport (page_of (runAnalysis sample_host 0 (Response 200 (JObj [(''report'', JNum 42)])) first_run_page))
       = JNum 42"
    using unrenderable_report_run(2) [OF v f(2) o g2(1) _ g2(2) _ g2(3), of 0] by simp
  have 5: "clipboard (copyReport (page_of (runAnalysis sample_host 0
         (Response 200 (JObj [(''report'', JNum 42)])) first_run_page)))
       = clipboard (page_of (runAnalysis sample_host 0
         (Response 200 (JObj [(''report'', JNum 42)])) first_run_page)) @ [JNum 42]"
    by (simp add: copyReport_def 4)
  have "formState (page_of (runAnalysis sample_host 0
         (Response 200 (JObj [(''report'', JNum 42)])) first_run_page)) = formState filled_page"
    using runAnalysis_form [of sample_host 0 _ first_run_page] f(1) by simp
  then have pn: "projectName (page_of (runAnalysis sample_host 0
         (Response 200 (JObj [(''report'', JNum 42)])) first_run_page)) = ''Ibuprofen vs COX-2''"
    by (simp add: formState_def filled_page_def blank_page_def)
  have dn: "download_name ''Ibuprofen vs COX-2'' = ''ibuprofen_vs_cox_2''"
    by code_simp
  have 6: "downloads (downloadReport (page_of (runAnalysis sample_host 0
         (Response 200 (JObj [(''report'', JNum 42)])) first_run_page)))
       = downloads (page_of (runAnalysis sample_host 0
         (Response 200 (JObj [(''report'', JNum 42)])) first_run_page))
         @ [(''ibuprofen_vs_cox_2.md'', JNum 42)]"
    by (simp add: downloadReport_def 4 pn dn)
  from 1 2 3 4 5 6 show ?thesis by blast
qed

section \<open>The markdown renderer: results\<close>

subsection \<open>Text that a pass leaves alone\<close>

lemma map_lines_single:
  assumes "\<forall>x \<in> set s. \<not> is_line_end x"
  shows "map_lines f s = f s"
proof -
  have tk: "takeWhile (\<lambda>x. \<not> is_line_end x) s = s"
    and dr: "dropWhile (\<lambda>x. \<not> is_line_end x) s = []"
    using assms by simp_all
  show ?thesis by (subst map_lines.simps) (simp add: Let_def tk dr)
qed

lemma delimited_absent:
  assumes "pat \<noteq> []" and "hd pat \<notin> set s"
  shows "delimited pat tag s = s"
  using assms(2)
proof (induction s)
  case Nil
  show ?case by simp
next
  case (Cons c cs)
  have "take (length pat) (c # cs) \<noteq> pat"
  proof
    assume "take (length pat) (c # cs) = pat"
    then have "hd pat = c" using assms(1) by (cases pat) auto
    with Cons.prems show False by simp
  qed
  with Cons show ?case by simp
qed

subsection \<open>Escaping, fences and inline code around a span\<close>

lemma replace_char_append:
  "replace_char c rep (a @ b) = replace_char c rep a @ replace_char c rep b"
  by (simp add: replace_char_def)

lemma escHtml_append: "escHtml (a @ b) = escHtml a @ escHtml b"
  by (simp add: escHtml_def replace_char_append)

lemma escHtml_Cons:
  "escHtml (x # s) =
     (if x = CHR ''&'' then ''&amp;'' else if x = CHR ''<'' then ''&lt;''
      else if x = CHR ''>'' then ''&gt;'' else [x]) @ escHtml s"
  by (simp add: escHtml_def replace_char_def)

lemma escHtml_Nil [simp]: "escHtml [] = []"
  by (simp add: escHtml_def replace_char_def)

lemma escHtml_set:
  "x \<notin> set s \<Longrightarrow> x \<notin> set ''&amp;lt;gt;'' \<Longrightarrow> x \<notin> set (escHtml s)"
  by (induction s) (auto simp: escHtml_Cons)

lemma escHtml_empty: "escHtml s = [] \<longleftrightarrow> s = []"
  by (cases s) (auto simp: escHtml_Cons)

lemma escHtml_two_backticks:
  assumes "take 2 (escHtml q) = [backtick, backtick]"
  shows "take 2 q = [backtick, backtick]"
proof (cases q)
  case Nil
  with assms show ?thesis by simp
next
  case (Cons x r)
  note q = Cons
  show ?thesis
  proof (cases r)
    case Nil
    with assms q show ?thesis
      by (auto simp: escHtml_Cons backtick_def split: if_splits)
  next
    case (Cons y r')
    with assms q show ?thesis
      by (auto simp: escHtml_Cons backtick_def split: if_splits)
  qed
qed

lemma code_blocks_prefix:
  "backtick \<notin> set p \<Longrightarrow> code_blocks (p @ x) = p @ code_blocks x"
  by (induction p) (auto simp: fence_def backtick_def)

lemma code_blocks_opening:
  assumes "c \<noteq> []" and "backtick \<notin> set c"
  shows "code_blocks (backtick # c @ y) = backtick # code_blocks (c @ y)"
proof -
  obtain x c' where c: "c = x # c'" using assms(1) by (cases c) auto
  have x: "x \<noteq> CHR 0x60" using assms(2) by (auto simp: c backtick_def)
  have "take 3 (backtick # c @ y) \<noteq> fence"
    using x by (simp add: c fence_def)
  then show ?thesis by simp
qed

lemma code_blocks_closing:
  assumes "take 2 q \<noteq> [backtick, backtick]"
  shows "code_blocks (backtick # q) = backtick # code_blocks q"
proof -
  have "take 3 (backtick # q) = backtick # take 2 q"
    by (simp add: numeral_3_eq_3 numeral_2_eq_2)
  then have "take 3 (backtick # q) \<noteq> fence"
    using assms by (simp add: fence_def backtick_def)
  then show ?thesis by simp
qed

lemma inline_code_prefix:
  "backtick \<notin> set p \<Longrightarrow> inline_code (p @ x) = p @ inline_code x"
  by (induction p) auto

lemma inline_code_element:
  assumes "c \<noteq> []" and "backtick \<notin> set c"
  shows "inline_code (backtick # c @ backtick # q) = ''<code>'' @ c @ ''</code>'' @ inline_code q"
proof -
  have t: "takeWhile (\<lambda>x. x \<noteq> backtick) (c @ backtick # q) = c"
    using assms(2) by (induction c) auto
  have d: "dropWhile (\<lambda>x. x \<noteq> backtick) (c @ backtick # q) = backtick # q"
    using assms(2) by (induction c) auto
  have "inline_body (c @ backtick # q) = Some (c, q)"
    using assms(1) by (simp add: inline_body_def Let_def t d)
  then show ?thesis by simp
qed

lemma span_after_inline_code:
  assumes ne: "c \<noteq> []" and bc: "backtick \<notin> set c" and bp: "backtick \<notin> set pre"
    and post: "take 2 post \<noteq> [backtick, backtick]"
  shows "inline_code (code_blocks (escHtml (pre @ backtick # c @ backtick # post)))
       = escHtml pre @ ''<code>'' @ escHtml c @ ''</code>'' @ inline_code (code_blocks (escHtml post))"
proof -
  have bt: "backtick \<notin> set ''&amp;lt;gt;''" by (simp add: backtick_def)
  have p': "backtick \<notin> set (escHtml pre)" using bp bt by (rule escHtml_set)
  have c': "backtick \<notin> set (escHtml c)" using bc bt by (rule escHtml_set)
  have ne': "escHtml c \<noteq> []" using ne by (simp add: escHtml_empty)
  have q': "take 2 (escHtml post) \<noteq> [backtick, backtick]"
    using post escHtml_two_backticks by blast
  have e: "escHtml (pre @ backtick # c @ backtick # post)
      = escHtml pre @ backtick # escHtml c @ backtick # escHtml post"
    by (simp add: escHtml_append escHtml_Cons backtick_def)
  have cb: "code_blocks (escHtml pre @ backtick # escHtml c @ backtick # escHtml post)
      = escHtml pre @ backtick # escHtml c @ backtick # code_blocks (escHtml post)"
    by (simp only: code_blocks_prefix [OF p'] code_blocks_opening [OF ne' c']
          code_blocks_prefix [OF c'] code_blocks_closing [OF q'])
  show ?thesis
    by (simp only: e cb inline_code_prefix [OF p'] inline_code_element [OF ne' c'])
qed

subsection \<open>Paired backticks before a span\<close>

lemma paired_plain: "backtick \<notin> set s \<Longrightarrow> paired s"
proof -
  assume "backtick \<notin> set s"
  then have e: "dropWhile (\<lambda>x. x \<noteq> backtick) s = []" by auto
  show ?thesis by (subst paired.simps, subst e) simp
qed

lemma paired_split:
  assumes "paired s" and "backtick \<in> set s"
  shows "\<exists>t c rest. s = t @ backtick # c @ backtick # rest \<and> backtick \<notin> set t
     \<and> c \<noteq> [] \<and> backtick \<notin> set c \<and> paired rest"
proof -
  define t where "t = takeWhile (\<lambda>x. x \<noteq> backtick) s"
  define d where "d = dropWhile (\<lambda>x. x \<noteq> backtick) s"
  have s: "s = t @ d" by (simp add: t_def d_def)
  have t: "backtick \<notin> set t" by (auto simp: t_def dest: set_takeWhileD)
  have "d \<noteq> []" using assms(2) by (auto simp: d_def)
  then obtain x r where d: "d = x # r" by (cases d) auto
  have "\<not> (hd d \<noteq> backtick)" unfolding d_def using \<open>d \<noteq> []\<close> [unfolded d_def]
    by (rule hd_dropWhile)
  then have x: "x = backtick" by (simp add: d)
  have p: "case inline_body r of Some (body, rest) \<Rightarrow> paired rest | None \<Rightarrow> False"
    using assms(1) d by (subst (asm) paired.simps) (simp add: d_def [symmetric])
  then obtain c rest where i: "inline_body r = Some (c, rest)" and rest: "paired rest"
    by (auto split: option.splits)
  define c' where "c' = takeWhile (\<lambda>x. x \<noteq> backtick) r"
  define r' where "r' = dropWhile (\<lambda>x. x \<noteq> backtick) r"
  have c: "c = c'" "c' \<noteq> []" "r' \<noteq> []" "rest = tl r'"
    using i by (auto simp: inline_body_def Let_def c'_def r'_def split: if_splits)
  have "\<not> (hd r' \<noteq> backtick)" unfolding r'_def using \<open>r' \<noteq> []\<close> [unfolded r'_def]
    by (rule hd_dropWhile)
  then have r': "r' = backtick # rest" using c(3,4) by (cases r') auto
  have "r = c' @ r'" by (simp add: c'_def r'_def)
  then have r: "r = c @ backtick # rest" by (simp only: c(1) r')
  have cb: "backtick \<notin> set c" by (auto simp: c(1) c'_def dest: set_takeWhileD)
  have ne: "c \<noteq> []" using c(1,2) by simp
  have "s = t @ backtick # c @ backtick # rest" by (simp add: s d x r)
  with t ne cb rest show ?thesis by blast
qed

lemma paired_start:
  assumes "paired p" and "q = [] \<or> (\<exists>c z. q = backtick # c # z \<and> c \<noteq> backtick)"
  shows "take 2 (p @ q) \<noteq> [backtick, backtick]"
proof (cases p)
  case Nil
  with assms(2) show ?thesis by auto
next
  case (Cons x p')
  show ?thesis
  proof (cases "x = backtick")
    case False
    then show ?thesis by (simp add: Cons)
  next
    case True
    then have "backtick \<in> set p" by (simp add: Cons)
    from paired_split [OF assms(1) this]
    obtain t c rest where s: "p = t @ backtick # c @ backtick # rest" and t: "backtick \<notin> set t"
      and c: "c \<noteq> []" "backtick \<notin> set c"
      by blast
    have "t = []" using s t True Cons by (cases t) auto
    then show ?thesis using s c by (cases c) auto
  qed
qed

lemma passes_plain_prefix:
  assumes "backtick \<notin> set p"
  shows "inline_code (code_blocks (escHtml (p @ q))) = escHtml p @ inline_code (code_blocks (escHtml q))"
proof -
  have bt: "backtick \<notin> set ''&amp;lt;gt;''" by (simp add: backtick_def)
  have p': "backtick \<notin> set (escHtml p)" using assms bt by (rule escHtml_set)
  show ?thesis
    by (simp only: escHtml_append code_blocks_prefix [OF p'] inline_code_prefix [OF p'])
qed

lemma passes_paired_prefix:
  assumes q: "q = [] \<or> (\<exists>c z. q = backtick # c # z \<and> c \<noteq> backtick)"
  shows "paired p \<Longrightarrow>
    inline_code (code_blocks (escHtml (p @ q)))
      = inline_code (code_blocks (escHtml p)) @ inline_code (code_blocks (escHtml q))"
proof (induction "length p" arbitrary: p rule: less_induct)
  case less
  show ?case
  proof (cases "backtick \<in> set p")
    case False
    then show ?thesis
      using passes_plain_prefix [of p q] passes_plain_prefix [of p "[]"] by simp
  next
    case True
    from paired_split [OF less.prems True]
    obtain t c rest where s: "p = t @ backtick # c @ backtick # rest" and t: "backtick \<notin> set t"
      and c: "c \<noteq> []" "backtick \<notin> set c" and rest: "paired rest"
      by blast
    have a: "take 2 (rest @ q) \<noteq> [backtick, backtick]"
      using rest q by (rule paired_start)
    have b: "take 2 rest \<noteq> [backtick, backtick]"
      using paired_start [OF rest, of "[]"] by simp
    have "length rest < length p" by (simp add: s)
    then have ih: "inline_code (code_blocks (escHtml (rest @ q)))
      = inline_code (code_blocks (escHtml rest)) @ inline_code (code_blocks (escHtml q))"
      using rest by (rule less.hyps)
    have "p @ q = t @ backtick # c @ backtick # (rest @ q)" by (simp add: s)
    then show ?thesis
      by (simp only: span_after_inline_code [OF c t a] ih)
        (simp add: s span_after_inline_code [OF c t b])
  qed
qed

subsection \<open>Contiguous parts\<close>

lemma occurs_inI: "t = a @ s @ b \<Longrightarrow> occurs_in s t"
  by (auto simp: occurs_in_def)

lemma occurs_in_Cons: "occurs_in s t \<Longrightarrow> occurs_in s (x # t)"
  unfolding occurs_in_def by (metis append_Cons)

lemma occurs_in_append_left: "occurs_in s t \<Longrightarrow> occurs_in s (u @ t)"
  unfolding occurs_in_def by (metis append_assoc)

lemma occurs_in_append_right: "occurs_in s t \<Longrightarrow> occurs_in s (t @ u)"
  unfolding occurs_in_def by (metis append_assoc)

subsection \<open>What the line passes keep\<close>

lemma map_lines_keeps:
  assumes line: "\<And>l. occurs_in s l \<Longrightarrow> occurs_in s (f l)"
    and s: "\<forall>x \<in> set s. \<not> is_line_end x"
  shows "occurs_in s (map_lines f (a @ s @ b))"
proof (induction "length a" arbitrary: a rule: less_induct)
  case less
  show ?case
  proof (cases "\<exists>x \<in> set a. is_line_end x")
    case False
    then have tk: "takeWhile (\<lambda>x. \<not> is_line_end x) (a @ s @ b)
        = a @ s @ takeWhile (\<lambda>x. \<not> is_line_end x) b"
      using s by (simp add: takeWhile_append2)
    have "occurs_in s (f (a @ s @ takeWhile (\<lambda>x. \<not> is_line_end x) b))"
      by (rule line) (rule occurs_inI [OF refl])
    then show ?thesis
      by (subst map_lines.simps) (simp add: Let_def tk occurs_in_append_right)
  next
    case True
    then obtain l t r where a: "a = l @ t # r" and l: "\<forall>x \<in> set l. \<not> is_line_end x"
      and t: "is_line_end t"
      using split_list_first_prop [of a is_line_end] by auto
    have tk: "takeWhile (\<lambda>x. \<not> is_line_end x) (a @ s @ b) = l"
      using l t by (simp add: a takeWhile_append2)
    have dr: "dropWhile (\<lambda>x. \<not> is_line_end x) (a @ s @ b) = t # r @ s @ b"
      using l t by (simp add: a dropWhile_append2)
    have "length r < length a" by (simp add: a)
    then have "occurs_in s (map_lines f (r @ s @ b))" by (rule less)
    then show ?thesis
      by (subst map_lines.simps)
        (simp add: Let_def tk dr occurs_in_append_left occurs_in_Cons)
  qed
qed

lemma header_line_keeps:
  assumes s: "s \<noteq> []" "hd s \<noteq> CHR ''#''" "hd s \<noteq> CHR '' ''" and l: "occurs_in s l"
  shows "occurs_in s (header_line n l)"
proof (cases "take (n + 1) l = replicate n CHR ''#'' @ '' '' \<and> drop (n + 1) l \<noteq> []")
  case False
  then have "header_line n l = l" by (simp only: header_line_def if_False)
  then show ?thesis using l by simp
next
  case True
  obtain a b where ab: "l = a @ s @ b" using l by (auto simp: occurs_in_def)
  have "n + 1 \<le> length a"
  proof (rule ccontr)
    assume "\<not> n + 1 \<le> length a"
    then have lt: "length a < n + 1" by simp
    have "take (n + 1) l ! length a = l ! length a"
      using lt by simp
    also have "\<dots> = hd s" using s(1) by (simp add: ab nth_append hd_conv_nth)
    finally have "(replicate n CHR ''#'' @ '' '') ! length a = hd s" using True by simp
    then show False using s(2,3) lt by (auto simp: nth_append split: if_splits)
  qed
  then have "drop (n + 1) l = drop (n + 1) a @ s @ b" by (simp add: ab)
  then have "occurs_in s (drop (n + 1) l)" by (rule occurs_inI)
  then have "occurs_in s ((''<h'' @ show_nat n @ ''>'') @ drop (n + 1) l @ ''</h'' @ show_nat n @ ''>'')"
    by (intro occurs_in_append_left occurs_in_append_right)
  then show ?thesis
    using True by (simp add: header_line_def)
qed

lemma headers_keeps:
  assumes "s \<noteq> []" "hd s \<noteq> CHR ''#''" "hd s \<noteq> CHR '' ''" "\<forall>x \<in> set s. \<not> is_line_end x"
    and "occurs_in s t"
  shows "occurs_in s (headers n t)"
proof -
  obtain a b where "t = a @ s @ b" using assms(5) by (auto simp: occurs_in_def)
  then show ?thesis
    unfolding headers_def
    using map_lines_keeps [of s "header_line n" a b] header_line_keeps [OF assms(1-3)] assms(4)
    by simp
qed

lemma rule_line_keeps:
  assumes "CHR ''-'' \<notin> set s" "s \<noteq> []" and "occurs_in s l"
  shows "occurs_in s (rule_line l)"
proof -
  have "l \<noteq> ''---''"
  proof
    assume "l = ''---''"
    then obtain a b where "''---'' = a @ s @ b" using assms(3) by (auto simp: occurs_in_def)
    then have "set ''---'' = set (a @ s @ b)" by simp
    then have "set s \<subseteq> {CHR ''-''}" by auto
    then show False using assms(1,2) by (cases s) auto
  qed
  then show ?thesis using assms(3) by (simp add: rule_line_def)
qed

subsection \<open>What the delimiter passes keep\<close>

lemma lazy_dots_split:
  "lazy_dots pat s = Some (body, rest) \<Longrightarrow> s = body @ pat @ rest \<and> body \<noteq> []"
proof (induction s arbitrary: body)
  case Nil
  then show ?case by simp
next
  case (Cons c cs)
  show ?case
  proof (cases "take (length pat) cs = pat")
    case True
    then have "cs = pat @ drop (length pat) cs"
      by (metis append_take_drop_id)
    with Cons.prems True show ?thesis by (auto split: if_splits)
  next
    case False
    with Cons.prems obtain b where b: "lazy_dots pat cs = Some (b, rest)" and body: "body = c # b"
      by (auto split: if_splits)
    from Cons.IH [OF b] body show ?thesis by simp
  qed
qed

lemma delimiter_before:
  assumes "p @ v = a @ s @ b" and "s \<noteq> []" and "set s \<inter> set p = {}"
  shows "\<exists>a2. a = p @ a2 \<and> v = a2 @ s @ b"
  using assms
proof (induction p arbitrary: a)
  case Nil
  then show ?case by simp
next
  case (Cons x p)
  show ?case
  proof (cases a)
    case Nil
    with Cons.prems have "hd s = x" by (cases s) auto
    with Cons.prems(2,3) show ?thesis by (cases s) auto
  next
    case (Cons y a1)
    with Cons.prems have "p @ v = a1 @ s @ b" and "y = x" by auto
    moreover from Cons.prems have "set s \<inter> set p = {}" by auto
    ultimately obtain a2 where "a1 = p @ a2 \<and> v = a2 @ s @ b"
      using Cons.IH Cons.prems(2) by blast
    with Cons \<open>y = x\<close> show ?thesis by simp
  qed
qed

lemma body_or_behind:
  assumes "body @ v = a @ s @ b" and "v \<noteq> []" and "hd v \<notin> set s"
  shows "occurs_in s body \<or> (\<exists>a2. a = body @ a2 \<and> v = a2 @ s @ b)"
proof -
  from assms(1) consider us where "body = a @ us" "us @ v = s @ b"
    | us where "body @ us = a" "v = us @ s @ b"
    by (auto simp: append_eq_append_conv2)
  then show ?thesis
  proof cases
    case 1
    from 1(2) consider w where "us = s @ w" | w where "us @ w = s" "v = w @ b"
      by (auto simp: append_eq_append_conv2)
    then show ?thesis
    proof cases
      case 1
      with \<open>body = a @ us\<close> have "body = a @ s @ w" by simp
      then have "occurs_in s body" by (rule occurs_inI)
      then show ?thesis ..
    next
      case 2
      show ?thesis
      proof (cases w)
        case Nil
        with 2 \<open>body = a @ us\<close> have "body = a @ s @ []" by simp
        then have "occurs_in s body" by (rule occurs_inI)
        then show ?thesis ..
      next
        case (Cons x w')
        with 2 assms(2,3) show ?thesis by auto
      qed
    qed
  next
    case 2
    then show ?thesis by auto
  qed
qed

lemma delimited_prefix:
  "set s \<inter> set pat = {} \<Longrightarrow> delimited pat tag (s @ b) = s @ delimited pat tag b"
proof (induction s)
  case Nil
  show ?case by simp
next
  case (Cons c cs)
  have "pat \<noteq> [] \<Longrightarrow> take (length pat) (c # cs @ b) \<noteq> pat"
  proof
    assume "pat \<noteq> []" and "take (length pat) (c # cs @ b) = pat"
    then have "hd pat = c" by (cases pat) auto
    with Cons.prems \<open>pat \<noteq> []\<close> show False by (cases pat) auto
  qed
  with Cons show ?case by auto
qed

lemma delimited_keeps:
  assumes s: "set s \<inter> set pat = {}"
  shows "occurs_in s (delimited pat tag (a @ s @ b))"
proof (induction "length a" arbitrary: a rule: less_induct)
  case less
  show ?case
  proof (cases s)
    case Nil
    then show ?thesis by (auto simp: occurs_in_def)
  next
    case (Cons s0 s')
    then have ne: "s \<noteq> []" by simp
    show ?thesis
    proof (cases a)
      case Nil
      then show ?thesis
        by (simp add: delimited_prefix [OF s] occurs_in_def) (metis append_Nil)
    next
      case (Cons c a1)
      note a = Cons
      define t where "t = a1 @ s @ b"
      have keep: "occurs_in s (delimited pat tag t)"
        unfolding t_def by (rule less) (simp add: a)
      show ?thesis
      proof (cases "pat \<noteq> [] \<and> take (length pat) (c # t) = pat")
        case False
        then have "delimited pat tag (c # t) = c # delimited pat tag t" by auto
        then show ?thesis using keep by (simp add: a t_def occurs_in_Cons)
      next
        case True
        show ?thesis
        proof (cases "lazy_dots pat (drop (length pat) (c # t))")
          case None
          with True have "delimited pat tag (c # t) = c # delimited pat tag t" by simp
          then show ?thesis using keep by (simp add: a t_def occurs_in_Cons)
        next
          case (Some br)
          obtain body rest where br: "br = (body, rest)" by (cases br)
          from Some br lazy_dots_split
          have sp: "drop (length pat) (c # t) = body @ pat @ rest" and "body \<noteq> []"
            by blast+
          have out: "delimited pat tag (c # t)
              = ''<'' @ tag @ ''>'' @ body @ ''</'' @ tag @ ''>'' @ delimited pat tag rest"
            using True Some br by simp
          have "c # t = pat @ drop (length pat) (c # t)"
            using True by (metis append_take_drop_id)
          then have whole: "pat @ body @ pat @ rest = a @ s @ b"
            using sp by (simp add: a t_def)
          then obtain a2 where a2: "a = pat @ a2" and v: "body @ pat @ rest = a2 @ s @ b"
            using delimiter_before [OF _ ne s] by blast
          have "hd (pat @ rest) \<notin> set s" using True s by (cases pat) auto
          with body_or_behind [OF v] True
          consider "occurs_in s body" | a3 where "a2 = body @ a3" "pat @ rest = a3 @ s @ b"
            by auto
          then show ?thesis
          proof cases
            case 1
            then obtain x y where "body = x @ s @ y" by (auto simp: occurs_in_def)
            then have "delimited pat tag (c # t)
                = (''<'' @ tag @ ''>'' @ x) @ s @ (y @ ''</'' @ tag @ ''>'' @ delimited pat tag rest)"
              using out by simp
            then have "occurs_in s (delimited pat tag (c # t))" by (rule occurs_inI)
            then show ?thesis by (simp add: a t_def)
          next
            case 2
            from delimiter_before [OF 2(2) ne s]
            obtain a4 where a4: "a3 = pat @ a4" and rest: "rest = a4 @ s @ b" by blast
            have "length a4 < length a" using a2 2(1) a4 True by simp
            then have "occurs_in s (delimited pat tag (a4 @ s @ b))" by (rule less)
            then have "occurs_in s (delimited pat tag (c # t))"
              unfolding out rest
              by (intro occurs_in_append_left)
            then show ?thesis by (simp add: a t_def)
          qed
        qed
      qed
    qed
  qed
qed

subsection \<open>The span in the rendered text\<close>

lemma code_element_kept:
  assumes c: "\<forall>x \<in> set c. x \<noteq> CHR ''*'' \<and> \<not> is_line_end x"
    and t: "occurs_in (''<code>'' @ escHtml c @ ''</code>'') t"
  shows "occurs_in (''<code>'' @ escHtml c @ ''</code>'')
     (map_lines rule_line (delimited ''*'' ''em'' (delimited ''**'' ''strong''
       (headers 1 (headers 2 (headers 3 t))))))"
proof -
  define s where "s = ''<code>'' @ escHtml c @ ''</code>''"
  have star_c: "CHR ''*'' \<notin> set (escHtml c)"
    by (rule escHtml_set) (use c in auto)
  have star: "CHR ''*'' \<notin> set s"
    using star_c by (simp add: s_def)
  have lines_c: "\<not> is_line_end x" if "x \<in> set (escHtml c)" for x
  proof
    assume x: "is_line_end x"
    then have "x \<notin> set ''&amp;lt;gt;''" by (auto simp: is_line_end_def)
    moreover have "x \<notin> set c" using c x by auto
    ultimately have "x \<notin> set (escHtml c)" by (rule escHtml_set [rotated])
    with that show False by simp
  qed
  have lines: "\<forall>x \<in> set s. \<not> is_line_end x"
    using lines_c by (auto simp: s_def is_line_end_def)
  have ne: "s \<noteq> []" and h1: "hd s \<noteq> CHR ''#''" and h2: "hd s \<noteq> CHR '' ''"
    and dash: "CHR ''-'' \<notin> set [hd s]"
    by (simp_all add: s_def)
  have hs: "occurs_in s (headers n u)" if "occurs_in s u" for n u
    using ne h1 h2 lines that by (rule headers_keeps)
  have ds: "occurs_in s (delimited pat tag u)" if u: "occurs_in s u" and pat: "set pat \<subseteq> {CHR ''*''}"
    for pat tag u
  proof -
    obtain a b where "u = a @ s @ b" using u by (auto simp: occurs_in_def)
    moreover have "set s \<inter> set pat = {}" using star pat by auto
    ultimately show ?thesis using delimited_keeps by simp
  qed
  have rl: "occurs_in s (rule_line l)" if l: "occurs_in s l" for l
  proof -
    have "l \<noteq> ''---''"
    proof
      assume "l = ''---''"
      then obtain a b where "''---'' = a @ s @ b" using l by (auto simp: occurs_in_def)
      then have "set ''---'' = set (a @ s @ b)" by simp
      then have "set s \<subseteq> {CHR ''-''}" by auto
      then show False by (simp add: s_def)
    qed
    then show ?thesis using l by (simp add: rule_line_def)
  qed
  have rs: "occurs_in s (map_lines rule_line u)" if u: "occurs_in s u" for u
  proof -
    obtain a b where "u = a @ s @ b" using u by (auto simp: occurs_in_def)
    then show ?thesis using map_lines_keeps [of s rule_line a b] rl lines by simp
  qed
  have "occurs_in s t" using t by (simp add: s_def)
  then have "occurs_in s (headers 1 (headers 2 (headers 3 t)))"
    by (intro hs)
  then have "occurs_in s (delimited ''*'' ''em'' (delimited ''**'' ''strong''
       (headers 1 (headers 2 (headers 3 t)))))"
    by (intro ds) simp_all
  then show ?thesis unfolding s_def [symmetric] by (rule rs)
qed

lemma later_passes_plain:
  assumes lines: "\<forall>x \<in> set s. \<not> is_line_end x" and star: "CHR ''*'' \<notin> set s"
    and hash: "take 1 s \<noteq> ''#''" and rule: "s \<noteq> ''---''"
  shows "map_lines rule_line (delimited ''*'' ''em'' (delimited ''**'' ''strong''
       (headers 1 (headers 2 (headers 3 s))))) = s"
proof -
  have h: "headers n s = s" if pos: "n > 0" for n
  proof -
    obtain m where n: "n = Suc m" using pos by (cases n) auto
    have "take (n + 1) s \<noteq> replicate n CHR ''#'' @ '' ''"
      using hash by (cases s) (auto simp: n)
    then show ?thesis
      unfolding headers_def map_lines_single [OF lines] by (simp add: header_line_def)
  qed
  have b: "delimited ''**'' ''strong'' s = s"
    by (rule delimited_absent) (use star in simp_all)
  have em: "delimited ''*'' ''em'' s = s"
    by (rule delimited_absent) (use star in simp_all)
  have r: "map_lines rule_line s = s"
    unfolding map_lines_single [OF lines] using rule by (simp add: rule_line_def)
  show ?thesis by (simp add: h b em r)
qed

text \<open>
  Claim C6, as the code has it. The passes run in the fixed order escape, fenced code
  blocks, inline code, headers (three, two, one hash signs), bold, italic, horizontal
  rule, each on the output of the pass before it. A later pass is not kept out of what an
  earlier pass produced. What holds for an input made of a text \<open>pre\<close>, a single-backtick
  span with content \<open>c\<close>, and a text \<open>post\<close> is this. Let \<open>c\<close> be non-empty and free of
  backticks, asterisks and line terminators, let the backticks of \<open>pre\<close> be paired (plain
  text and complete spans only), and let \<open>post\<close> not begin with two backticks. Then the
  inline-code pass leaves the rendering of \<open>pre\<close>, a \<^verbatim>\<open>code\<close> element holding the escaped
  \<open>c\<close> in place of the span and its two backticks, and the rendering of \<open>post\<close>; and the
  markup that \<^verbatim>\<open>renderMarkdown\<close> ends with still contains that element, its content as
  the inline-code pass left it. If moreover \<open>pre\<close> and \<open>post\<close> have no backtick, asterisk or
  line terminator and \<open>pre\<close> does not begin with a hash sign, the markup is exactly the
  escaped text with the element in place of the span.
\<close>

theorem markdown_inline_code_span:
  "markdown_html text =
     map_lines rule_line (delimited ''*'' ''em'' (delimited ''**'' ''strong''
       (headers 1 (headers 2 (headers 3 (inline_code (code_blocks (escHtml text))))))))
   \<and> (c \<noteq> [] \<and> (\<forall>x \<in> set c. x \<noteq> backtick \<and> x \<noteq> CHR ''*'' \<and> \<not> is_line_end x)
        \<and> paired pre \<and> take 2 post \<noteq> [backtick, backtick] \<longrightarrow>
      inline_code (code_blocks (escHtml (pre @ backtick # c @ backtick # post)))
        = inline_code (code_blocks (escHtml pre)) @ ''<code>'' @ escHtml c @ ''</code>''
          @ inline_code (code_blocks (escHtml post))
      \<and> (\<exists>a b. markdown_html (pre @ backtick # c @ backtick # post)
            = a @ ''<code>'' @ escHtml c @ ''</code>'' @ b))
   \<and> (c \<noteq> [] \<and> (\<forall>x \<in> set (pre @ c @ post). x \<noteq> backtick \<and> x \<noteq> CHR ''*'' \<and> \<not> is_line_end x)
        \<and> take 1 pre \<noteq> ''#'' \<longrightarrow>
      markdown_html (pre @ backtick # c @ backtick # post)
        = escHtml pre @ ''<code>'' @ escHtml c @ ''</code>'' @ escHtml post)"
proof -
  have chain: "markdown_html t =
     map_lines rule_line (delimited ''*'' ''em'' (delimited ''**'' ''strong''
       (headers 1 (headers 2 (headers 3 (inline_code (code_blocks (escHtml t))))))))" for t
    by (simp add: markdown_html_def Let_def)
  have stage: "inline_code (code_blocks (escHtml (pre @ backtick # c @ backtick # post)))
        = inline_code (code_blocks (escHtml pre)) @ ''<code>'' @ escHtml c @ ''</code>''
          @ inline_code (code_blocks (escHtml post))"
    if ne: "c \<noteq> []"
      and pc: "\<forall>x \<in> set c. x \<noteq> backtick \<and> x \<noteq> CHR ''*'' \<and> \<not> is_line_end x"
      and pre: "paired pre" and post: "take 2 post \<noteq> [backtick, backtick]"
  proof -
    have bc: "backtick \<notin> set c" using pc by auto
    obtain c0 c' where c: "c = c0 # c'" using ne by (cases c) auto
    have "c0 \<noteq> backtick" using bc by (auto simp: c)
    then have cond: "backtick # c @ backtick # post = []
        \<or> (\<exists>x z. backtick # c @ backtick # post = backtick # x # z \<and> x \<noteq> backtick)"
      by (simp add: c)
    have e: "backtick \<notin> set []" by simp
    have "inline_code (code_blocks (escHtml (pre @ backtick # c @ backtick # post)))
        = inline_code (code_blocks (escHtml pre))
          @ inline_code (code_blocks (escHtml (backtick # c @ backtick # post)))"
      using cond pre by (rule passes_paired_prefix)
    also have "inline_code (code_blocks (escHtml (backtick # c @ backtick # post)))
        = ''<code>'' @ escHtml c @ ''</code>'' @ inline_code (code_blocks (escHtml post))"
      using span_after_inline_code [OF ne bc e post] by (simp only: append_Nil escHtml_Nil)
    finally show ?thesis .
  qed
  have element: "\<exists>a b. markdown_html (pre @ backtick # c @ backtick # post)
            = a @ ''<code>'' @ escHtml c @ ''</code>'' @ b"
    if "c \<noteq> []" "\<forall>x \<in> set c. x \<noteq> backtick \<and> x \<noteq> CHR ''*'' \<and> \<not> is_line_end x"
      "paired pre" "take 2 post \<noteq> [backtick, backtick]"
  proof -
    have "occurs_in (''<code>'' @ escHtml c @ ''</code>'')
        (inline_code (code_blocks (escHtml (pre @ backtick # c @ backtick # post))))"
      unfolding stage [OF that] occurs_in_def by (metis append_assoc)
    then have "occurs_in (''<code>'' @ escHtml c @ ''</code>'')
        (markdown_html (pre @ backtick # c @ backtick # post))"
      unfolding chain by (intro code_element_kept) (use that(2) in auto)
    then show ?thesis by (simp add: occurs_in_def)
  qed
  have plain: "markdown_html (pre @ backtick # c @ backtick # post)
        = escHtml pre @ ''<code>'' @ escHtml c @ ''</code>'' @ escHtml post"
    if ne: "c \<noteq> []"
      and p: "\<forall>x \<in> set (pre @ c @ post). x \<noteq> backtick \<and> x \<noteq> CHR ''*'' \<and> \<not> is_line_end x"
      and hash: "take 1 pre \<noteq> ''#''"
  proof -
    define s where "s = escHtml pre @ ''<code>'' @ escHtml c @ ''</code>'' @ escHtml post"
    have bt: "backtick \<notin> set ''&amp;lt;gt;''" by (simp add: backtick_def)
    have bq: "backtick \<notin> set (escHtml post)"
      by (rule escHtml_set) (use p bt in auto)
    have bp: "backtick \<notin> set pre" using p by auto
    have "take 2 post \<noteq> [backtick, backtick]"
      using p by (cases post) auto
    then have "inline_code (code_blocks (escHtml (pre @ backtick # c @ backtick # post)))
        = inline_code (code_blocks (escHtml pre)) @ ''<code>'' @ escHtml c @ ''</code>''
          @ inline_code (code_blocks (escHtml post))"
      by (intro stage paired_plain [OF bp]) (use ne p in auto)
    also have "inline_code (code_blocks (escHtml pre)) = escHtml pre"
      using passes_plain_prefix [OF bp, of "[]"] by simp
    also have "code_blocks (escHtml post) = escHtml post"
      using code_blocks_prefix [OF bq, of "[]"] by simp
    also have "inline_code (escHtml post) = escHtml post"
      using inline_code_prefix [OF bq, of "[]"] by simp
    finally have i: "inline_code (code_blocks (escHtml (pre @ backtick # c @ backtick # post))) = s"
      by (simp add: s_def)
    have no_star: "CHR ''*'' \<notin> set (escHtml u)" if "CHR ''*'' \<notin> set u" for u
      using that by (rule escHtml_set) simp
    have s1: "CHR ''*'' \<notin> set (escHtml pre)" by (rule no_star) (use p in auto)
    have s2: "CHR ''*'' \<notin> set (escHtml c)" by (rule no_star) (use p in auto)
    have s3: "CHR ''*'' \<notin> set (escHtml post)" by (rule no_star) (use p in auto)
    have star: "CHR ''*'' \<notin> set s"
      unfolding s_def using s1 s2 s3 by simp
    have no_end: "\<forall>x \<in> set (escHtml u). \<not> is_line_end x"
      if u: "\<forall>x \<in> set u. \<not> is_line_end x" for u
    proof
      fix x assume x: "x \<in> set (escHtml u)"
      show "\<not> is_line_end x"
      proof
        assume e: "is_line_end x"
        then have "x \<notin> set ''&amp;lt;gt;''" by (auto simp: is_line_end_def)
        moreover have "x \<notin> set u" using u e by auto
        ultimately have "x \<notin> set (escHtml u)" by (rule escHtml_set [rotated])
        with x show False by simp
      qed
    qed
    have l1: "\<forall>x \<in> set (escHtml pre). \<not> is_line_end x"
      by (rule no_end) (use p in simp)
    have l2: "\<forall>x \<in> set (escHtml c). \<not> is_line_end x"
      by (rule no_end) (use p in simp)
    have l3: "\<forall>x \<in> set (escHtml post). \<not> is_line_end x"
      by (rule no_end) (use p in simp)
    have l4: "\<forall>x \<in> set ''<code></code>''. \<not> is_line_end x"
      by (simp add: is_line_end_def)
    have lines: "\<forall>x \<in> set s. \<not> is_line_end x"
      unfolding s_def using l1 l2 l3 l4 by (simp add: ball_Un)
    have first: "take 1 s \<noteq> ''#''"
      using hash by (cases pre) (auto simp: s_def escHtml_Cons)
    have "CHR ''<'' \<in> set s" by (simp add: s_def)
    then have rule: "s \<noteq> ''---''" by auto
    show ?thesis
      unfolding chain i using later_passes_plain [OF lines star first rule] by (simp add: s_def)
  qed
  from chain stage element plain show ?thesis by blast
qed

theorem markdown_inline_code_span_witness:
  "markdown_html (''run '' @ backtick # ''code'' @ backtick # '' now'') = ''run <code>code</code> now''
   \<and> inline_code (code_blocks (escHtml
         ((''# Use '' @ backtick # ''a'' @ backtick # '' or '') @ backtick # ''x<y'' @ backtick
           # '' and **'' @ backtick # ''z'' @ backtick # ''**'')))
       = ''# Use <code>a</code> or <code>x&lt;y</code> and **<code>z</code>**''
   \<and> markdown_html
         ((''# Use '' @ backtick # ''a'' @ backtick # '' or '') @ backtick # ''x<y'' @ backtick
           # '' and **'' @ backtick # ''z'' @ backtick # ''**'')
       = ''<h1>Use <code>a</code> or <code>x&lt;y</code> and <strong><code>z</code></strong></h1>''"
proof -
  have plain: "''code'' \<noteq> [] \<and> (\<forall>x \<in> set (''run '' @ ''code'' @ '' now'').
        x \<noteq> backtick \<and> x \<noteq> CHR ''*'' \<and> \<not> is_line_end x) \<and> take 1 ''run '' \<noteq> ''#''"
    by (simp add: backtick_def is_line_end_def)
  have esc: "escHtml ''run '' = ''run ''" "escHtml ''code'' = ''code''" "escHtml '' now'' = '' now''"
    "escHtml ''x<y'' = ''x&lt;y''"
    by code_simp+
  from markdown_inline_code_span [of "[]" "''code''" "''run ''" "'' now''"] plain
  have "markdown_html (''run '' @ backtick # ''code'' @ backtick # '' now'')
      = escHtml ''run '' @ ''<code>'' @ escHtml ''code'' @ ''</code>'' @ escHtml '' now''"
    by blast
  then have 1: "markdown_html (''run '' @ backtick # ''code'' @ backtick # '' now'')
      = ''run <code>code</code> now''"
    by (simp add: esc)
  have before: "paired (''# Use '' @ backtick # ''a'' @ backtick # '' or '')"
    by code_simp
  have span: "''x<y'' \<noteq> [] \<and> (\<forall>x \<in> set ''x<y''. x \<noteq> backtick \<and> x \<noteq> CHR ''*'' \<and> \<not> is_line_end x)
      \<and> take 2 ('' and **'' @ backtick # ''z'' @ backtick # ''**'') \<noteq> [backtick, backtick]"
    by (simp add: backtick_def is_line_end_def)
  have parts: "inline_code (code_blocks (escHtml (''# Use '' @ backtick # ''a'' @ backtick # '' or '')))
      = ''# Use <code>a</code> or ''"
    "inline_code (code_blocks (escHtml ('' and **'' @ backtick # ''z'' @ backtick # ''**'')))
      = '' and **<code>z</code>**''"
    by code_simp+
  from markdown_inline_code_span [of "[]" "''x<y''" "''# Use '' @ backtick # ''a'' @ backtick # '' or ''"
      "'' and **'' @ backtick # ''z'' @ backtick # ''**''"] before span
  have "inline_code (code_blocks (escHtml
         ((''# Use '' @ backtick # ''a'' @ backtick # '' or '') @ backtick # ''x<y'' @ backtick
           # '' and **'' @ backtick # ''z'' @ backtick # ''**'')))
      = inline_code (code_blocks (escHtml (''# Use '' @ backtick # ''a'' @ backtick # '' or '')))
        @ ''<code>'' @ escHtml ''x<y'' @ ''</code>''
        @ inline_code (code_blocks (escHtml ('' and **'' @ backtick # ''z'' @ backtick # ''**'')))"
    by blast
  then have 2: "inline_code (code_blocks (escHtml
         ((''# Use '' @ backtick # ''a'' @ backtick # '' or '') @ backtick # ''x<y'' @ backtick
           # '' and **'' @ backtick # ''z'' @ backtick # ''**'')))
       = ''# Use <code>a</code> or <code>x&lt;y</code> and **<code>z</code>**''"
    unfolding esc parts by simp
  have 3: "markdown_html
         ((''# Use '' @ backtick # ''a'' @ backtick # '' or '') @ backtick # ''x<y'' @ backtick
           # '' and **'' @ backtick # ''z'' @ backtick # ''**'')
       = ''<h1>Use <code>a</code> or <code>x&lt;y</code> and <strong><code>z</code></strong></h1>''"
    by code_simp
  from 1 2 3 show ?thesis by blast
qed

text \<open>
  Claim C6 as stated (no later pass matches inside the output of an earlier pass, so that
  every input containing a span yields the element with exactly its content) fails. The
  italic pass rewrites the content of an inline-code element, and the header pass rewrites
  a line inside a fenced code block, and a line inside an inline-code element, across the
  closing tags. An unpaired backtick before the span pairs with its opening backtick,
  and two backticks behind the span make its closing backtick the start of a fence; in
  both cases there is no element with the content \<^verbatim>\<open>code\<close>.
\<close>

theorem markdown_rematch_counterexample:
  "markdown_html (backtick # ''a*b*c'' @ [backtick]) = ''<code>a<em>b</em>c</code>''
   \<and> inline_code (code_blocks (escHtml (backtick # ''a*b*c'' @ [backtick]))) = ''<code>a*b*c</code>''
   \<and> markdown_html (fence @ [CHR 0x0A] @ ''x = 1'' @ [CHR 0x0A] @ ''# note'' @ [CHR 0x0A] @ fence)
       = ''<pre><code>x = 1'' @ [CHR 0x0A] @ ''<h1>note</code></pre></h1>''
   \<and> markdown_html (backtick # ''a'' @ [CHR 0x0A] @ ''# b'' @ [backtick])
       = ''<code>a'' @ [CHR 0x0A] @ ''<h1>b</code></h1>''
   \<and> markdown_html (''a'' @ backtick # ''b'' @ backtick # ''code'' @ backtick # ''c'')
       = ''a<code>b</code>code'' @ backtick # ''c''
   \<and> markdown_html (backtick # ''code'' @ backtick # fence @ ''x'' @ fence)
       = ''<code>code<pre><code></code>x</code></pre>''"
  by code_simp

end
